theory Spec2Isabelle
  imports Complex_Main
begin

section \<open>Numbers and tensors\<close>

text \<open>
  Tensor entries are floating-point numbers.  The model keeps the one special value the
  optimizers of \<open>agent.py\<close> can create themselves, NaN (a mean over zero rows, a
  Bessel-corrected standard deviation over fewer than two rows: both are 0/0), and
  idealises every other entry as a real number: rounding and overflow are not modelled.
\<close>

datatype fl = Fin real | NaN

type_synonym vec = "fl list"
type_synonym mat = "fl list list"

text \<open>The run-time errors of the tensor library that the optimizers can trigger.\<close>

datatype error =
    ExpandError       \<comment> \<open>\<open>expand\<close>/\<open>expand_as\<close> on a non-singleton dimension of another size\<close>
  | ViewError         \<comment> \<open>\<open>view(0, -1)\<close>: the size \<open>-1\<close> stands for is not determined\<close>
  | TopkError         \<comment> \<open>\<open>torch.topk(q, k)\<close> with \<open>k\<close> larger than the number of scores\<close>
  | MaxEmptyError     \<comment> \<open>\<open>q.max(0)\<close> on a tensor with no rows\<close>
  | NormalError       \<comment> \<open>\<open>torch.normal\<close>: not all elements of \<open>std\<close> are \<open>\<ge> 0\<close>\<close>
  | UniformError      \<comment> \<open>\<open>uniform_(lo, hi)\<close> with \<open>lo > hi\<close>\<close>
  | NegativeDimError  \<comment> \<open>\<open>torch.zeros\<close> with a negative dimension\<close>

fun fl_add :: "fl \<Rightarrow> fl \<Rightarrow> fl" where
  "fl_add (Fin a) (Fin b) = Fin (a + b)"
| "fl_add _ _ = NaN"

fun fl_mul :: "fl \<Rightarrow> fl \<Rightarrow> fl" where
  "fl_mul (Fin a) (Fin b) = Fin (a * b)"
| "fl_mul _ _ = NaN"

text \<open>\<open>x.clamp(lo, hi)\<close> is \<open>min(max(x, lo), hi)\<close> entrywise; NaN stays NaN.\<close>

fun clamp :: "real \<Rightarrow> real \<Rightarrow> fl \<Rightarrow> fl" where
  "clamp lo hi (Fin x) = Fin (min (max x lo) hi)"
| "clamp lo hi NaN = NaN"

text \<open>The real entries of a list of numbers, or \<open>None\<close> when one of them is NaN.\<close>

fun fins :: "fl list \<Rightarrow> real list option" where
  "fins [] = Some []"
| "fins (NaN # xs) = None"
| "fins (Fin r # xs) = map_option ((#) r) (fins xs)"

text \<open>\<open>mean\<close> and \<open>std\<close> (unbiased, divisor \<open>n - 1\<close>) of one column.\<close>

definition mean_fl :: "fl list \<Rightarrow> fl" where
  "mean_fl xs =
     (case fins xs of
        None \<Rightarrow> NaN
      | Some rs \<Rightarrow> if rs = [] then NaN else Fin (sum_list rs / real (length rs)))"

definition std_fl :: "fl list \<Rightarrow> fl" where
  "std_fl xs =
     (case fins xs of
        None \<Rightarrow> NaN
      | Some rs \<Rightarrow>
          if length rs \<le> 1 then NaN
          else (let m = sum_list rs / real (length rs)
                in Fin (sqrt (sum_list (map (\<lambda>r. (r - m)\<^sup>2) rs) / real (length rs - 1)))))"

definition column :: "mat \<Rightarrow> nat \<Rightarrow> fl list" where
  "column rows j = map (\<lambda>r. r ! j) rows"

text \<open>
  \<open>t.mean(dim=0, keepdim=True)\<close> and \<open>t.std(dim=0, keepdim=True)\<close> of a tensor of
  shape \<open>(k, A)\<close>: the single row of the \<open>(1, A)\<close> result.
\<close>

definition mean_dim0 :: "nat \<Rightarrow> mat \<Rightarrow> vec" where
  "mean_dim0 A rows = map (\<lambda>j. mean_fl (column rows j)) [0..<A]"

definition std_dim0 :: "nat \<Rightarrow> mat \<Rightarrow> vec" where
  "std_dim0 A rows = map (\<lambda>j. std_fl (column rows j)) [0..<A]"

text \<open>
  \<open>t.expand(n, -1, -1, -1)\<close>: only the batch dimension changes.  A batch of one is
  repeated \<open>n\<close> times, a batch of \<open>n\<close> is kept, every other batch size is an error.
\<close>

definition expand0 :: "nat \<Rightarrow> 'a list \<Rightarrow> error + 'a list" where
  "expand0 n t =
     (if length t = 1 then Inr (replicate n (hd t))
      else if length t = n then Inr t
      else Inl ExpandError)"

text \<open>
  \<open>torch.topk(q, k)\<close>: the indices of the \<open>k\<close> largest scores, largest first.  Which
  of several equal scores comes first is the library's choice, and it is not the lower
  index in general.  The choice is a parameter of the model: among the indices of equal
  score the one with the lower priority \<open>tie q i\<close> comes first (and the lower index
  among those of equal priority), so that every order among equal scores is the result
  for some \<open>tie\<close>.
\<close>

definition topk :: "(real list \<Rightarrow> nat \<Rightarrow> nat) \<Rightarrow> real list \<Rightarrow> nat \<Rightarrow> error + nat list" where
  "topk tie q k =
     (if k > length q then Inl TopkError
      else Inr (take k (sort_key (\<lambda>i. - (q ! i)) (sort_key (tie q) [0..<length q]))))"

text \<open>
  \<open>q.max(0)[1]\<close>: the index of the largest score, the first one among equal scores;
  an error on an empty tensor.
\<close>

fun max_index_from :: "real \<Rightarrow> nat \<Rightarrow> nat \<Rightarrow> real list \<Rightarrow> nat" where
  "max_index_from b bi i [] = bi"
| "max_index_from b bi i (x # xs) =
     (if b < x then max_index_from x i (Suc i) xs else max_index_from b bi (Suc i) xs)"

definition max_index :: "real list \<Rightarrow> error + nat" where
  "max_index q = (case q of [] \<Rightarrow> Inl MaxEmptyError | x # xs \<Rightarrow> Inr (max_index_from x 0 1 xs))"

text \<open>
  The random source.  \<open>torch.normal(mu.expand(n, A), std.expand(n, A))\<close> first checks
  that every element of the expanded \<open>std\<close> is a number \<open>\<ge> 0\<close> (a NaN fails the
  check) and raises otherwise; its value is \<open>mu + std * z\<close> for standard normal draws
  \<open>z\<close>, entry by entry.  \<open>uniform_(lo, hi)\<close> raises for \<open>lo > hi\<close>, whatever the
  size of the tensor; its value is \<open>lo + (hi - lo) * u\<close> for draws \<open>u\<close> from
  \<open>[0, 1)\<close>.  The draws are parameters of the model, indexed by the position they
  fill: row and column for \<open>z\<close> in one pass, state, candidate and column for \<open>u\<close>.
\<close>

fun std_ok :: "fl \<Rightarrow> bool" where
  "std_ok (Fin x) = (0 \<le> x)"
| "std_ok NaN = False"

definition normal :: "(nat \<Rightarrow> nat \<Rightarrow> real) \<Rightarrow> vec \<Rightarrow> vec \<Rightarrow> nat \<Rightarrow> nat \<Rightarrow> error + mat" where
  "normal z mu std n A =
     (if list_all (list_all std_ok) (replicate n std)
      then Inr (map (\<lambda>r. map (\<lambda>c. fl_add (mu ! c) (fl_mul (std ! c) (Fin (z r c)))) [0..<A])
                  [0..<n])
      else Inl NormalError)"

definition uniform_candidates :: "(nat \<Rightarrow> nat \<Rightarrow> real) \<Rightarrow> nat \<Rightarrow> nat \<Rightarrow> real \<Rightarrow> real \<Rightarrow> mat" where
  "uniform_candidates ui n A lo hi =
     map (\<lambda>j. map (\<lambda>k. Fin (lo + (hi - lo) * ui j k)) [0..<A]) [0..<n]"

definition uniform_actions ::
  "(nat \<Rightarrow> nat \<Rightarrow> nat \<Rightarrow> real) \<Rightarrow> nat \<Rightarrow> nat \<Rightarrow> nat \<Rightarrow> real \<Rightarrow> real \<Rightarrow> mat list" where
  "uniform_actions u B n A lo hi = map (\<lambda>i. uniform_candidates (u i) n A lo hi) [0..<B]"

definition uniform_fill ::
  "(nat \<Rightarrow> nat \<Rightarrow> nat \<Rightarrow> real) \<Rightarrow> nat \<Rightarrow> nat \<Rightarrow> nat \<Rightarrow> real \<Rightarrow> real \<Rightarrow> error + mat list" where
  "uniform_fill u B n A lo hi =
     (if hi < lo then Inl UniformError else Inr (uniform_actions u B n A lo hi))"

section \<open>The agent\<close>

text \<open>
  The fields \<open>Agent.__init__\<close> stores; it checks none of them.  \<open>num_uniform\<close> is an
  integer: \<open>_uniform_optimizer\<close> hands it to \<open>torch.zeros\<close> as it is, which raises
  for a negative one.  The other sizes and counts are taken to be natural numbers, and
  the bounds are always passed (the source defaults them to \<open>(-1, 1)\<close>).  The networks
  it builds are parameters of the model: \<open>Q h a\<close> is the value the Q-network computes
  for one embedding \<open>h\<close> and one action row \<open>a\<close> (each layer of \<open>_forward_q\<close>
  works row by row), taken to be a number for every row, and \<open>state_net\<close> maps an image
  batch and its timesteps to the batch of embeddings, whose channel count is the one
  \<open>_forward_q\<close> expects.
\<close>

record agent =
  action_size :: nat
  num_uniform :: int
  num_cem :: nat
  cem_iter :: nat
  cem_elite :: nat
  bounds :: "real \<times> real"

definition Agent_init :: "nat \<Rightarrow> int \<Rightarrow> nat \<Rightarrow> nat \<Rightarrow> nat \<Rightarrow> real \<times> real \<Rightarrow> agent" where
  "Agent_init a nu nc ci ce b =
     \<lparr>action_size = a, num_uniform = nu, num_cem = nc, cem_iter = ci, cem_elite = ce,
      bounds = b\<rparr>"

text \<open>
  \<open>_forward_q\<close>: the encoded action batch is expanded to the batch size of \<open>hidden\<close>
  (\<open>expand_as\<close>: a batch of one action is repeated, a batch of any other size must
  match), the rows are flattened by \<open>view(out.size(0), -1)\<close>, which the library refuses
  for a batch of no rows, and every row is scored: one score per row of \<open>hidden\<close>.
\<close>

definition forward_q :: "('h \<Rightarrow> vec \<Rightarrow> real) \<Rightarrow> 'h list \<Rightarrow> mat \<Rightarrow> error + real list" where
  "forward_q Q hidden action =
     (if length action \<noteq> length hidden \<and> length action \<noteq> 1 then Inl ExpandError
      else if hidden = [] then Inl ViewError
      else if length action = length hidden then Inr (map2 Q hidden action)
      else Inr (map (\<lambda>h. Q h (hd action)) hidden))"

text \<open>
  The body of the loop of \<open>_cem_optimizer\<close>, on the state \<open>s = (mu, std)\<close>, in its
  three parts: the clamped sample \<open>action\<close>, the elite rows \<open>action[topk]\<close>, and the
  new state.
\<close>

definition cem_sample :: "agent \<Rightarrow> (nat \<Rightarrow> nat \<Rightarrow> real) \<Rightarrow> vec \<times> vec \<Rightarrow> error + mat" where
  "cem_sample cfg zt s =
     (case normal zt (fst s) (snd s) (num_cem cfg) (action_size cfg) of
        Inl e \<Rightarrow> Inl e
      | Inr a \<Rightarrow> Inr (map (map (clamp (fst (bounds cfg)) (snd (bounds cfg)))) a))"

definition cem_select ::
  "agent \<Rightarrow> (real list \<Rightarrow> nat \<Rightarrow> nat) \<Rightarrow> ('h \<Rightarrow> vec \<Rightarrow> real) \<Rightarrow> 'h list \<Rightarrow> mat \<Rightarrow> error + mat" where
  "cem_select cfg tie Q hidden action =
     (case forward_q Q hidden action of
        Inl e \<Rightarrow> Inl e
      | Inr q \<Rightarrow>
          (case topk tie q (cem_elite cfg) of
             Inl e \<Rightarrow> Inl e
           | Inr tk \<Rightarrow> Inr (map (\<lambda>i. action ! i) tk)))"

definition cem_iteration ::
  "agent \<Rightarrow> (real list \<Rightarrow> nat \<Rightarrow> nat) \<Rightarrow> ('h \<Rightarrow> vec \<Rightarrow> real) \<Rightarrow> (nat \<Rightarrow> nat \<Rightarrow> real) \<Rightarrow> 'h list
     \<Rightarrow> vec \<times> vec \<Rightarrow> error + vec \<times> vec" where
  "cem_iteration cfg tie Q zt hidden s =
     (case cem_sample cfg zt s of
        Inl e \<Rightarrow> Inl e
      | Inr action \<Rightarrow>
          (case cem_select cfg tie Q hidden action of
             Inl e \<Rightarrow> Inl e
           | Inr elite \<Rightarrow>
               Inr (mean_dim0 (action_size cfg) elite, std_dim0 (action_size cfg) elite)))"

text \<open>
  \<open>for _ in range(self.cem_iter)\<close>: \<open>t\<close> counts the passes done, \<open>n\<close> the passes left;
  pass \<open>t\<close> uses the draws \<open>z t\<close>.
\<close>

fun cem_loop ::
  "agent \<Rightarrow> (real list \<Rightarrow> nat \<Rightarrow> nat) \<Rightarrow> ('h \<Rightarrow> vec \<Rightarrow> real) \<Rightarrow> (nat \<Rightarrow> nat \<Rightarrow> nat \<Rightarrow> real)
     \<Rightarrow> 'h list \<Rightarrow> nat \<Rightarrow> nat \<Rightarrow> vec \<times> vec \<Rightarrow> error + vec \<times> vec" where
  "cem_loop cfg tie Q z hidden t 0 s = Inr s"
| "cem_loop cfg tie Q z hidden t (Suc n) s =
     (case cem_iteration cfg tie Q (z t) hidden s of
        Inl e \<Rightarrow> Inl e
      | Inr s' \<Rightarrow> cem_loop cfg tie Q z hidden (Suc t) n s')"

text \<open>
  The state of \<open>_cem_optimizer\<close> when its loop ends: the mean it returns and the
  standard deviation it would sample with next.
\<close>

definition cem_final ::
  "agent \<Rightarrow> (real list \<Rightarrow> nat \<Rightarrow> nat) \<Rightarrow> ('h \<Rightarrow> vec \<Rightarrow> real) \<Rightarrow> (nat \<Rightarrow> nat \<Rightarrow> nat \<Rightarrow> real)
     \<Rightarrow> 'h list \<Rightarrow> error + vec \<times> vec" where
  "cem_final cfg tie Q z hidden =
     (case expand0 (num_cem cfg) hidden of
        Inl e \<Rightarrow> Inl e
      | Inr hidden' \<Rightarrow>
          cem_loop cfg tie Q z hidden' 0 (cem_iter cfg)
            (replicate (action_size cfg) (Fin 0), replicate (action_size cfg) (Fin 1)))"

text \<open>\<open>_cem_optimizer\<close> returns \<open>mu\<close>, a tensor of shape \<open>(1, action_size)\<close>.\<close>

definition cem_optimizer ::
  "agent \<Rightarrow> (real list \<Rightarrow> nat \<Rightarrow> nat) \<Rightarrow> ('h \<Rightarrow> vec \<Rightarrow> real) \<Rightarrow> (nat \<Rightarrow> nat \<Rightarrow> nat \<Rightarrow> real)
     \<Rightarrow> 'h list \<Rightarrow> error + mat" where
  "cem_optimizer cfg tie Q z hidden =
     (case cem_final cfg tie Q z hidden of Inl e \<Rightarrow> Inl e | Inr s \<Rightarrow> Inr [fst s])"

text \<open>
  The body of the loop of \<open>_uniform_optimizer\<close> for the state index \<open>i\<close>:
  \<open>hidden[i:i+1]\<close> is expanded to \<open>num_uniform\<close> rows and scored against
  \<open>actions[i]\<close>; the value is the row \<open>actions[i, q.max(0)[1]]\<close>.
\<close>

definition uniform_best ::
  "agent \<Rightarrow> ('h \<Rightarrow> vec \<Rightarrow> real) \<Rightarrow> 'h list \<Rightarrow> mat list \<Rightarrow> nat \<Rightarrow> error + vec" where
  "uniform_best cfg Q hidden actions i =
     (case expand0 (nat (num_uniform cfg)) (take 1 (drop i hidden)) of
        Inl e \<Rightarrow> Inl e
      | Inr hidden' \<Rightarrow>
          (case forward_q Q hidden' (actions ! i) of
             Inl e \<Rightarrow> Inl e
           | Inr q \<Rightarrow>
               (case max_index q of
                  Inl e \<Rightarrow> Inl e
                | Inr j \<Rightarrow> Inr (actions ! i ! j))))"

text \<open>The loop itself, over the state indices \<open>is\<close>, storing each row in \<open>outputs\<close>.\<close>

fun uniform_loop ::
  "agent \<Rightarrow> ('h \<Rightarrow> vec \<Rightarrow> real) \<Rightarrow> 'h list \<Rightarrow> mat list \<Rightarrow> nat list \<Rightarrow> mat \<Rightarrow> error + mat" where
  "uniform_loop cfg Q hidden actions [] outputs = Inr outputs"
| "uniform_loop cfg Q hidden actions (i # is) outputs =
     (case uniform_best cfg Q hidden actions i of
        Inl e \<Rightarrow> Inl e
      | Inr a \<Rightarrow> uniform_loop cfg Q hidden actions is (outputs[i := a]))"

text \<open>
  \<open>_uniform_optimizer\<close>: the tensor \<open>actions\<close> of shape
  \<open>(B, num_uniform, action_size)\<close> is allocated (an error for a negative
  \<open>num_uniform\<close>) and filled (an error for \<open>lo > hi\<close>) before the loop starts.
\<close>

definition uniform_optimizer ::
  "agent \<Rightarrow> ('h \<Rightarrow> vec \<Rightarrow> real) \<Rightarrow> (nat \<Rightarrow> nat \<Rightarrow> nat \<Rightarrow> real) \<Rightarrow> 'h list \<Rightarrow> error + mat" where
  "uniform_optimizer cfg Q u hidden =
     (if num_uniform cfg < 0 then Inl NegativeDimError
      else case uniform_fill u (length hidden) (nat (num_uniform cfg)) (action_size cfg)
                  (fst (bounds cfg)) (snd (bounds cfg)) of
             Inl e \<Rightarrow> Inl e
           | Inr actions \<Rightarrow>
               uniform_loop cfg Q hidden actions [0..<length hidden]
                 (replicate (length hidden) (replicate (action_size cfg) (Fin 0))))"

definition choose_action ::
  "agent \<Rightarrow> (real list \<Rightarrow> nat \<Rightarrow> nat) \<Rightarrow> ('h \<Rightarrow> vec \<Rightarrow> real) \<Rightarrow> ('i \<Rightarrow> 't \<Rightarrow> 'h list)
     \<Rightarrow> (nat \<Rightarrow> nat \<Rightarrow> nat \<Rightarrow> real) \<Rightarrow> (nat \<Rightarrow> nat \<Rightarrow> nat \<Rightarrow> real) \<Rightarrow> 'i \<Rightarrow> 't \<Rightarrow> bool
     \<Rightarrow> error + mat" where
  "choose_action cfg tie Q state_net z u img cur_time use_cem =
     (let hidden = state_net img cur_time
      in if use_cem then cem_optimizer cfg tie Q z hidden
         else uniform_optimizer cfg Q u hidden)"

definition forward ::
  "agent \<Rightarrow> ('h \<Rightarrow> vec \<Rightarrow> real) \<Rightarrow> ('i \<Rightarrow> 't \<Rightarrow> 'h list) \<Rightarrow> (nat \<Rightarrow> nat \<Rightarrow> nat \<Rightarrow> real)
     \<Rightarrow> 'i \<Rightarrow> 't \<Rightarrow> mat option \<Rightarrow> error + real list" where
  "forward cfg Q state_net u img cur_time action =
     (let hidden = state_net img cur_time
      in case (case action of
                 None \<Rightarrow> uniform_optimizer cfg Q u hidden
               | Some a \<Rightarrow> Inr a) of
           Inl e \<Rightarrow> Inl e
         | Inr a \<Rightarrow> forward_q Q hidden a)"

section \<open>The cross-entropy method as the specification words it\<close>

text \<open>
  The specification describes the optimizer for one embedding \<open>h\<close>, over real numbers:
  start from mean 0 and standard deviation 1; in every round draw \<open>num_cem\<close> candidates
  from the Gaussian with the current mean and standard deviation of each dimension and
  clamp every component into \<open>[lo, hi]\<close>, score them all against \<open>h\<close>, keep
  \<open>cem_elite\<close> candidates with the highest scores (the order among equal scores is left
  open), and take the sample mean and the sample standard deviation of each dimension of
  those as the new distribution; return the last mean.  These definitions follow that
  wording, not the code: they work on real numbers with operations of their own, and
  share with the model above only the configuration, the draws and the scorer \<open>Q\<close>.
\<close>

definition spec_clamp :: "real \<Rightarrow> real \<Rightarrow> real \<Rightarrow> real" where
  "spec_clamp lo hi x = (if x < lo then lo else if hi < x then hi else x)"

text \<open>A draw from the Gaussian with the given mean and standard deviation, from a standard normal draw.\<close>

definition spec_gaussian :: "real \<Rightarrow> real \<Rightarrow> real \<Rightarrow> real" where
  "spec_gaussian mean std z = mean + std * z"

definition spec_candidates ::
  "agent \<Rightarrow> (nat \<Rightarrow> nat \<Rightarrow> real) \<Rightarrow> real list \<times> real list \<Rightarrow> real list list" where
  "spec_candidates cfg zt d =
     map (\<lambda>r. map (\<lambda>i. spec_clamp (fst (bounds cfg)) (snd (bounds cfg))
                          (spec_gaussian (fst d ! i) (snd d ! i) (zt r i)))
                [0..<action_size cfg])
       [0..<num_cem cfg]"



definition sample_mean :: "real list \<Rightarrow> real" where
  "sample_mean xs = sum_list xs / real (length xs)"

definition sample_std :: "real list \<Rightarrow> real" where
  "sample_std xs =
     sqrt (sum_list (map (\<lambda>x. (x - sample_mean xs)\<^sup>2) xs) / (real (length xs) - 1))"

definition spec_estimate :: "nat \<Rightarrow> real list list \<Rightarrow> real list \<times> real list" where
  "spec_estimate A elite =
     (map (\<lambda>i. sample_mean (map (\<lambda>a. a ! i) elite)) [0..<A],
      map (\<lambda>i. sample_std (map (\<lambda>a. a ! i) elite)) [0..<A])"


section \<open>Notions used in the statements\<close>

text \<open>A number within the action bounds; NaN is not.\<close>

fun in_bounds :: "real \<times> real \<Rightarrow> fl \<Rightarrow> bool" where
  "in_bounds b (Fin x) = (fst b \<le> x \<and> x \<le> snd b)"
| "in_bounds b NaN = False"

text \<open>A positive number, as a floored standard deviation would be.\<close>

fun positive :: "fl \<Rightarrow> bool" where
  "positive (Fin x) = (0 < x)"
| "positive NaN = False"

text \<open>
  A number, not NaN; a sampling distribution of the right size whose mean has no NaN and
  whose standard deviation \<open>torch.normal\<close> accepts.
\<close>

fun is_num :: "fl \<Rightarrow> bool" where
  "is_num (Fin x) = True"
| "is_num NaN = False"

definition numeric_state :: "nat \<Rightarrow> vec \<times> vec \<Rightarrow> bool" where
  "numeric_state A s \<longleftrightarrow>
     length (fst s) = A \<and> length (snd s) = A \<and> list_all is_num (fst s) \<and> list_all std_ok (snd s)"

text \<open>The row of \<open>cands\<close> that \<open>max_index\<close> selects under the scores \<open>Q h\<close>.\<close>

definition best_row :: "('h \<Rightarrow> vec \<Rightarrow> real) \<Rightarrow> 'h \<Rightarrow> mat \<Rightarrow> vec" where
  "best_row Q h cands = cands ! max_index_from (Q h (hd cands)) 0 1 (map (Q h) (tl cands))"

section \<open>Auxiliary facts\<close>

lemma fins_length: "fins xs = Some rs \<Longrightarrow> length rs = length xs"
  by (induction xs arbitrary: rs rule: fins.induct) auto

lemma fins_Some_iff: "fins xs = Some rs \<longleftrightarrow> xs = map Fin rs"
  by (induction xs arbitrary: rs rule: fins.induct) auto

text \<open>
  What \<open>topk\<close> returns, whatever the order among equal scores: \<open>k\<close> distinct indices
  whose scores no other score exceeds.
\<close>

lemma topk_Inr:
  assumes "topk tie q k = Inr tk"
  shows "length tk = k" and "distinct tk" and "set tk \<subseteq> {0..<length q}"
    and "\<And>i j. i \<in> set tk \<Longrightarrow> j < length q \<Longrightarrow> j \<notin> set tk \<Longrightarrow> q ! j \<le> q ! i"
proof -
  let ?xs = "sort_key (\<lambda>i. - (q ! i)) (sort_key (tie q) [0..<length q])"
  from assms have k: "k \<le> length q" and tk: "tk = take k ?xs"
    by (auto simp: topk_def split: if_splits)
  show "length tk = k" using k tk by simp
  have d: "distinct ?xs" by simp
  then show "distinct tk" unfolding tk by (rule distinct_take)
  show "set tk \<subseteq> {0..<length q}" unfolding tk using set_take_subset[of k ?xs] by auto
  fix i j assume i: "i \<in> set tk" and j: "j < length q" and nj: "j \<notin> set tk"
  have "j \<in> set ?xs" using j by simp
  then have "j \<in> set (take k ?xs) \<union> set (drop k ?xs)"
    by (metis append_take_drop_id set_append)
  then have jd: "j \<in> set (drop k ?xs)" using nj tk by simp
  have "sorted (map (\<lambda>i. - (q ! i)) ?xs)" by (rule sorted_sort_key)
  then have "sorted (map (\<lambda>i. - (q ! i)) (take k ?xs) @ map (\<lambda>i. - (q ! i)) (drop k ?xs))"
    by (metis append_take_drop_id map_append)
  then have "\<forall>x\<in>set (take k ?xs). \<forall>y\<in>set (drop k ?xs). - (q ! x) \<le> - (q ! y)"
    by (auto simp: sorted_append)
  then show "q ! j \<le> q ! i" using i jd tk by auto
qed



lemma expand0_single: "expand0 n [h] = Inr (replicate n h)"
  by (simp add: expand0_def)

lemma forward_q_replicate:
  "0 < n \<Longrightarrow> length action = n \<Longrightarrow> forward_q Q (replicate n h) action = Inr (map (Q h) action)"
  by (auto simp: forward_q_def intro!: nth_equalityI)

lemma forward_q_length: "forward_q Q hidden action = Inr q \<Longrightarrow> length q = length hidden"
  by (auto simp: forward_q_def split: if_splits)

text \<open>
  Invariant of the scan: \<open>pre\<close> are the scores seen so far, \<open>b\<close> is the largest of them
  and sits at \<open>bi\<close>.
\<close>

lemma max_index_from_max:
  assumes "bi < length pre" and "pre ! bi = b" and "\<forall>k<length pre. pre ! k \<le> b"
  shows "max_index_from b bi (length pre) xs < length (pre @ xs)
         \<and> (\<forall>k<length (pre @ xs). (pre @ xs) ! k \<le> (pre @ xs) ! max_index_from b bi (length pre) xs)"
  using assms
proof (induction xs arbitrary: b bi pre)
  case Nil
  then show ?case by simp
next
  case (Cons x xs)
  show ?case
  proof (cases "b < x")
    case True
    have "max_index_from x (length pre) (length (pre @ [x])) xs < length ((pre @ [x]) @ xs)
          \<and> (\<forall>k<length ((pre @ [x]) @ xs).
               ((pre @ [x]) @ xs) ! k
                 \<le> ((pre @ [x]) @ xs) ! max_index_from x (length pre) (length (pre @ [x])) xs)"
    proof (rule Cons.IH)
      show "length pre < length (pre @ [x])" by simp
      show "(pre @ [x]) ! length pre = x" by simp
      show "\<forall>k<length (pre @ [x]). (pre @ [x]) ! k \<le> x"
        using Cons.prems(3) True by (auto simp: nth_append less_Suc_eq)
    qed
    with True show ?thesis by simp
  next
    case False
    have "max_index_from b bi (length (pre @ [x])) xs < length ((pre @ [x]) @ xs)
          \<and> (\<forall>k<length ((pre @ [x]) @ xs).
               ((pre @ [x]) @ xs) ! k
                 \<le> ((pre @ [x]) @ xs) ! max_index_from b bi (length (pre @ [x])) xs)"
    proof (rule Cons.IH)
      show "bi < length (pre @ [x])" using Cons.prems(1) by simp
      show "(pre @ [x]) ! bi = b" using Cons.prems(1,2) by (simp add: nth_append)
      show "\<forall>k<length (pre @ [x]). (pre @ [x]) ! k \<le> b"
        using Cons.prems(3) False by (auto simp: nth_append less_Suc_eq)
    qed
    with False show ?thesis by simp
  qed
qed

lemma max_index_Inr:
  assumes "q \<noteq> []"
  shows "\<exists>j<length q. max_index q = Inr j \<and> (\<forall>k<length q. q ! k \<le> q ! j)"
proof -
  from assms obtain x xs where q: "q = x # xs" by (cases q) auto
  have "max_index_from x 0 (length [x]) xs < length ([x] @ xs)
        \<and> (\<forall>k<length ([x] @ xs). ([x] @ xs) ! k \<le> ([x] @ xs) ! max_index_from x 0 (length [x]) xs)"
    by (rule max_index_from_max) auto
  then show ?thesis by (simp add: q max_index_def)
qed

lemma best_row_max:
  assumes "cands \<noteq> []"
  shows "\<exists>j<length cands. best_row Q h cands = cands ! j
           \<and> (\<forall>k<length cands. Q h (cands ! k) \<le> Q h (cands ! j))"
proof -
  from assms obtain c cs where c: "cands = c # cs" by (cases cands) auto
  from max_index_Inr[of "map (Q h) cands"] assms
  obtain j where j: "j < length cands" "max_index (map (Q h) cands) = Inr j"
    "\<forall>k<length cands. Q h (cands ! k) \<le> Q h (cands ! j)"
    by auto
  from j(2) have "best_row Q h cands = cands ! j"
    by (simp add: best_row_def max_index_def c)
  with j show ?thesis by blast
qed

lemma uniform_best_eq:
  assumes "0 < num_uniform cfg" and "i < length hidden"
    and "length (actions ! i) = nat (num_uniform cfg)"
  shows "uniform_best cfg Q hidden actions i = Inr (best_row Q (hidden ! i) (actions ! i))"
proof -
  have n: "0 < nat (num_uniform cfg)" using assms(1) by simp
  have "take 1 (drop i hidden) = [hidden ! i]"
    using assms(2) by (simp add: take_Suc_conv_app_nth Cons_nth_drop_Suc[symmetric])
  then have e: "expand0 (nat (num_uniform cfg)) (take 1 (drop i hidden))
                = Inr (replicate (nat (num_uniform cfg)) (hidden ! i))"
    by (simp only: expand0_single)
  have f: "forward_q Q (replicate (nat (num_uniform cfg)) (hidden ! i)) (actions ! i)
           = Inr (map (Q (hidden ! i)) (actions ! i))"
    using n assms(3) by (rule forward_q_replicate)
  from n assms(3) obtain c cs where c: "actions ! i = c # cs"
    by (cases "actions ! i") auto
  have "uniform_best cfg Q hidden actions i
        = (case max_index (map (Q (hidden ! i)) (actions ! i)) of
             Inl e \<Rightarrow> Inl e
           | Inr j \<Rightarrow> Inr (actions ! i ! j))"
    by (simp only: uniform_best_def e f sum.case)
  then show ?thesis
    by (simp add: best_row_def max_index_def c)
qed

lemma uniform_loop_fold:
  assumes "\<forall>i\<in>set is. uniform_best cfg Q hidden actions i = Inr (b i)"
  shows "uniform_loop cfg Q hidden actions is outputs
         = Inr (fold (\<lambda>i out. out[i := b i]) is outputs)"
  using assms by (induction "is" arbitrary: outputs) auto

lemma length_fold_update [simp]:
  "length (fold (\<lambda>i out. out[i := b i]) is outputs) = length outputs"
  by (induction "is" arbitrary: outputs) auto

lemma nth_fold_update:
  "k < length outputs \<Longrightarrow>
   fold (\<lambda>i out. out[i := b i]) is outputs ! k = (if k \<in> set is then b k else outputs ! k)"
  by (induction "is" arbitrary: outputs) (auto simp: nth_list_update)

lemma fold_update_all:
  assumes "set is = {0..<length outputs}"
  shows "fold (\<lambda>i out. out[i := b i]) is outputs = map b [0..<length outputs]"
  using assms by (auto intro!: nth_equalityI simp: nth_fold_update)

lemma length_uniform_candidates [simp]: "length (uniform_candidates ui n A lo hi) = n"
  by (simp add: uniform_candidates_def)

text \<open>The loop of the uniform optimizer stores the best candidate of every state it visits.\<close>

lemma uniform_loop_eq:
  assumes "0 < num_uniform cfg" and "set is = {0..<length hidden}"
    and "length outputs = length hidden"
  shows "uniform_loop cfg Q hidden
           (uniform_actions u (length hidden) (nat (num_uniform cfg)) A lo hi) is outputs
         = Inr (map (\<lambda>i. best_row Q (hidden ! i)
                          (uniform_candidates (u i) (nat (num_uniform cfg)) A lo hi))
                  [0..<length hidden])"
proof -
  let ?acts = "uniform_actions u (length hidden) (nat (num_uniform cfg)) A lo hi"
  let ?b = "\<lambda>i. best_row Q (hidden ! i) (uniform_candidates (u i) (nat (num_uniform cfg)) A lo hi)"
  have "\<forall>i\<in>set is. uniform_best cfg Q hidden ?acts i = Inr (?b i)"
  proof
    fix i assume "i \<in> set is"
    then have i: "i < length hidden" using assms(2) by simp
    then have a: "?acts ! i = uniform_candidates (u i) (nat (num_uniform cfg)) A lo hi"
      by (simp add: uniform_actions_def)
    show "uniform_best cfg Q hidden ?acts i = Inr (?b i)"
      using uniform_best_eq[OF assms(1) i, of ?acts Q] a by simp
  qed
  then have "uniform_loop cfg Q hidden ?acts is outputs
             = Inr (fold (\<lambda>i out. out[i := ?b i]) is outputs)"
    by (rule uniform_loop_fold)
  also have "fold (\<lambda>i out. out[i := ?b i]) is outputs = map ?b [0..<length outputs]"
    using assms(2,3) by (intro fold_update_all) simp
  finally show ?thesis using assms(3) by simp
qed

lemma uniform_optimizer_eq:
  assumes "0 < num_uniform cfg" and "fst (bounds cfg) \<le> snd (bounds cfg)"
  shows "uniform_optimizer cfg Q u hidden
         = Inr (map (\<lambda>i. best_row Q (hidden ! i)
                          (uniform_candidates (u i) (nat (num_uniform cfg)) (action_size cfg)
                             (fst (bounds cfg)) (snd (bounds cfg))))
                  [0..<length hidden])"
proof -
  have "uniform_optimizer cfg Q u hidden
        = uniform_loop cfg Q hidden
            (uniform_actions u (length hidden) (nat (num_uniform cfg)) (action_size cfg)
               (fst (bounds cfg)) (snd (bounds cfg)))
            [0..<length hidden]
            (replicate (length hidden) (replicate (action_size cfg) (Fin 0)))"
    using assms by (simp add: uniform_optimizer_def uniform_fill_def)
  also have "\<dots> = Inr (map (\<lambda>i. best_row Q (hidden ! i)
                          (uniform_candidates (u i) (nat (num_uniform cfg)) (action_size cfg)
                             (fst (bounds cfg)) (snd (bounds cfg))))
                  [0..<length hidden])"
    using assms(1) by (intro uniform_loop_eq) auto
  finally show ?thesis .
qed

text \<open>What the uniform optimizer does with parameters outside the configuration domain.\<close>

lemma uniform_optimizer_negative:
  "num_uniform cfg < 0 \<Longrightarrow> uniform_optimizer cfg Q u hidden = Inl NegativeDimError"
  by (simp add: uniform_optimizer_def)

lemma uniform_optimizer_reversed_bounds:
  "0 \<le> num_uniform cfg \<Longrightarrow> snd (bounds cfg) < fst (bounds cfg) \<Longrightarrow>
   uniform_optimizer cfg Q u hidden = Inl UniformError"
  by (simp add: uniform_optimizer_def uniform_fill_def)

lemma uniform_best_no_candidates:
  assumes "num_uniform cfg = 0" and "i < length hidden" and "actions ! i = []"
  shows "uniform_best cfg Q hidden actions i = Inl ViewError"
proof -
  have "take 1 (drop i hidden) = [hidden ! i]"
    using assms(2) by (simp add: take_Suc_conv_app_nth Cons_nth_drop_Suc[symmetric])
  then have "expand0 (nat (num_uniform cfg)) (take 1 (drop i hidden)) = Inr []"
    by (simp only: expand0_single assms(1) nat_zero_as_int[symmetric] nat_0 replicate.simps)
  then show ?thesis by (simp add: uniform_best_def forward_q_def assms(3))
qed

lemma uniform_optimizer_no_candidates:
  assumes "num_uniform cfg = 0" and "fst (bounds cfg) \<le> snd (bounds cfg)"
  shows "uniform_optimizer cfg Q u hidden = (if hidden = [] then Inr [] else Inl ViewError)"
proof (cases hidden)
  case Nil
  then show ?thesis using assms by (simp add: uniform_optimizer_def uniform_fill_def uniform_actions_def)
next
  case (Cons h hs)
  let ?acts = "uniform_actions u (length hidden) (nat (num_uniform cfg)) (action_size cfg)
                 (fst (bounds cfg)) (snd (bounds cfg))"
  from Cons have pos: "0 < length hidden" by simp
  then have "?acts ! 0 = []"
    by (simp add: uniform_actions_def uniform_candidates_def assms)
  with assms(1) pos have "uniform_best cfg Q hidden ?acts 0 = Inl ViewError"
    by (rule uniform_best_no_candidates)
  moreover have "[0..<length hidden] = 0 # [Suc 0..<length hidden]"
    using pos by (rule upt_conv_Cons)
  moreover have "hidden \<noteq> []" using pos by simp
  ultimately show ?thesis
    using assms by (simp add: uniform_optimizer_def uniform_fill_def)
qed

lemma uniform_best_ignores_cem_fields:
  "uniform_best (cfg\<lparr>num_cem := nc, cem_iter := ci, cem_elite := ce\<rparr>) Q hidden actions i
   = uniform_best cfg Q hidden actions i"
  by (simp add: uniform_best_def)

lemma uniform_loop_ignores_cem_fields:
  "uniform_loop (cfg\<lparr>num_cem := nc, cem_iter := ci, cem_elite := ce\<rparr>) Q hidden actions is outputs
   = uniform_loop cfg Q hidden actions is outputs"
  by (induction "is" arbitrary: outputs)
    (simp_all add: uniform_best_ignores_cem_fields split: sum.splits)

lemma uniform_optimizer_ignores_cem_fields:
  "uniform_optimizer (cfg\<lparr>num_cem := nc, cem_iter := ci, cem_elite := ce\<rparr>) Q u hidden
   = uniform_optimizer cfg Q u hidden"
  by (simp add: uniform_optimizer_def uniform_loop_ignores_cem_fields split: sum.splits)

lemma forward_none_eq:
  assumes "0 < num_uniform cfg" and "fst (bounds cfg) \<le> snd (bounds cfg)"
    and "state_net img cur_time \<noteq> []"
  shows "forward cfg Q state_net u img cur_time None
         = Inr (map (\<lambda>i. Q (state_net img cur_time ! i)
                          (best_row Q (state_net img cur_time ! i)
                             (uniform_candidates (u i) (nat (num_uniform cfg)) (action_size cfg)
                                (fst (bounds cfg)) (snd (bounds cfg)))))
                  [0..<length (state_net img cur_time)])"
  using assms(3)
  by (auto simp: forward_def Let_def uniform_optimizer_eq[OF assms(1,2)] forward_q_def
      intro!: nth_equalityI)

lemma uniform_candidates_in_bounds:
  assumes "lo \<le> hi" and "\<forall>j k. 0 \<le> ui j k \<and> ui j k \<le> 1"
    and "row \<in> set (uniform_candidates ui n A lo hi)"
  shows "length row = A \<and> list_all (in_bounds (lo, hi)) row"
proof -
  from assms(3) obtain j where j: "j < n" and "row = uniform_candidates ui n A lo hi ! j"
    by (auto simp: in_set_conv_nth)
  then have row: "row = map (\<lambda>k. Fin (lo + (hi - lo) * ui j k)) [0..<A]"
    by (simp add: uniform_candidates_def)
  have "lo \<le> lo + (hi - lo) * ui j k \<and> lo + (hi - lo) * ui j k \<le> hi" for k
  proof -
    from assms(2) have u: "0 \<le> ui j k" "ui j k \<le> 1" by auto
    from assms(1) have d: "0 \<le> hi - lo" by simp
    have "0 \<le> (hi - lo) * ui j k" using d u(1) by simp
    moreover have "(hi - lo) * ui j k \<le> (hi - lo) * 1"
      using d u(2) by (rule mult_left_mono[rotated])
    ultimately show ?thesis by simp
  qed
  then show ?thesis by (simp add: row list_all_length)
qed

lemma uniform_optimizer_in_bounds:
  assumes b: "fst (bounds cfg) \<le> snd (bounds cfg)" and n: "0 < num_uniform cfg"
    and u: "\<forall>i j k. 0 \<le> u i j k \<and> u i j k \<le> 1"
  shows "\<exists>outs. uniform_optimizer cfg Q u hidden = Inr outs \<and> length outs = length hidden
           \<and> list_all (\<lambda>a. length a = action_size cfg \<and> list_all (in_bounds (bounds cfg)) a) outs"
proof -
  let ?c = "\<lambda>i. uniform_candidates (u i) (nat (num_uniform cfg)) (action_size cfg)
                   (fst (bounds cfg)) (snd (bounds cfg))"
  have "length (best_row Q (hidden ! i) (?c i)) = action_size cfg
        \<and> list_all (in_bounds (bounds cfg)) (best_row Q (hidden ! i) (?c i))" for i
  proof -
    have "?c i \<noteq> []" using n by (auto simp: uniform_candidates_def)
    from best_row_max[OF this, of Q "hidden ! i"]
    have "best_row Q (hidden ! i) (?c i) \<in> set (?c i)" by (auto simp: in_set_conv_nth)
    moreover from u have "\<forall>j k. 0 \<le> u i j k \<and> u i j k \<le> 1" by simp
    ultimately show ?thesis
      using uniform_candidates_in_bounds[OF b, of "u i"] by simp
  qed
  then show ?thesis
    by (simp add: uniform_optimizer_eq[OF n b] list_all_length)
qed

text \<open>Sampling from a distribution \<open>torch.normal\<close> accepts.\<close>

lemma normal_ok:
  "list_all std_ok std \<Longrightarrow>
   normal z mu std n A
   = Inr (map (\<lambda>r. map (\<lambda>c. fl_add (mu ! c) (fl_mul (std ! c) (Fin (z r c)))) [0..<A]) [0..<n])"
  by (simp add: normal_def list_all_iff)

lemma normal_rejects:
  "0 < n \<Longrightarrow> \<not> list_all std_ok std \<Longrightarrow> normal z mu std n A = Inl NormalError"
  by (auto simp: normal_def list_all_iff)

lemma in_bounds_clamp: "lo \<le> hi \<Longrightarrow> is_num x \<Longrightarrow> in_bounds (lo, hi) (clamp lo hi x)"
  by (cases x) auto

lemma is_num_clamp: "is_num x \<Longrightarrow> is_num (clamp lo hi x)"
  by (cases x) auto

lemma is_num_gaussian: "is_num m \<Longrightarrow> std_ok s \<Longrightarrow> is_num (fl_add m (fl_mul s (Fin z)))"
  by (cases m; cases s) auto

lemma in_bounds_is_num: "in_bounds b x \<Longrightarrow> is_num x"
  by (cases x) auto

lemma cem_sample_numeric:
  assumes "numeric_state (action_size cfg) s"
  shows "\<exists>action. cem_sample cfg zt s = Inr action \<and> length action = num_cem cfg
           \<and> (\<forall>row\<in>set action. length row = action_size cfg \<and> list_all is_num row
                 \<and> (fst (bounds cfg) \<le> snd (bounds cfg) \<longrightarrow>
                      list_all (in_bounds (bounds cfg)) row))"
proof -
  let ?lo = "fst (bounds cfg)" and ?hi = "snd (bounds cfg)"
  let ?g = "\<lambda>r c. fl_add (fst s ! c) (fl_mul (snd s ! c) (Fin (zt r c)))"
  let ?action = "map (\<lambda>r. map (\<lambda>c. clamp ?lo ?hi (?g r c)) [0..<action_size cfg])
                   [0..<num_cem cfg]"
  from assms have ok: "list_all std_ok (snd s)" by (simp add: numeric_state_def)
  have sample: "cem_sample cfg zt s = Inr ?action"
    by (simp add: cem_sample_def normal_ok[OF ok] comp_def)
  have num: "is_num (?g r c)" if "c < action_size cfg" for r c
  proof -
    from that assms have "is_num (fst s ! c)" "std_ok (snd s ! c)"
      by (auto simp: numeric_state_def list_all_length)
    then show ?thesis by (rule is_num_gaussian)
  qed
  have "length row = action_size cfg \<and> list_all is_num row
        \<and> (?lo \<le> ?hi \<longrightarrow> list_all (in_bounds (bounds cfg)) row)"
    if "row \<in> set ?action" for row
  proof -
    from that obtain r where
      row: "row = map (\<lambda>c. clamp ?lo ?hi (?g r c)) [0..<action_size cfg]"
      by auto
    have "in_bounds (bounds cfg) (clamp ?lo ?hi (?g r c))"
      if "c < action_size cfg" "?lo \<le> ?hi" for c
      using in_bounds_clamp[OF that(2) num[OF that(1)], of r] by simp
    then show ?thesis
      by (simp add: row list_all_length num is_num_clamp)
  qed
  with sample show ?thesis by simp
qed

lemma cem_select_Inr:
  assumes "cem_select cfg tie Q hidden action = Inr elite"
  shows "length elite = cem_elite cfg"
    and "length action = length hidden \<Longrightarrow> set elite \<subseteq> set action"
proof -
  from assms obtain q tk where q: "forward_q Q hidden action = Inr q"
    and tk: "topk tie q (cem_elite cfg) = Inr tk" and e: "elite = map (\<lambda>i. action ! i) tk"
    by (auto simp: cem_select_def split: sum.splits)
  show "length elite = cem_elite cfg" using topk_Inr(1)[OF tk] e by simp
  assume "length action = length hidden"
  with forward_q_length[OF q] topk_Inr(3)[OF tk] show "set elite \<subseteq> set action"
    by (auto simp: e)
qed

lemma cem_select_ok:
  assumes "0 < num_cem cfg" and "cem_elite cfg \<le> num_cem cfg"
    and "length hidden = num_cem cfg" and "length action = num_cem cfg"
  shows "\<exists>elite. cem_select cfg tie Q hidden action = Inr elite"
  using assms by (auto simp: cem_select_def forward_q_def topk_def)

lemma sum_list_lower: "\<forall>r\<in>set rs. lo \<le> r \<Longrightarrow> lo * real (length rs) \<le> sum_list rs"
  by (induction rs) (auto simp: algebra_simps)

lemma sum_list_upper: "\<forall>r\<in>set rs. r \<le> hi \<Longrightarrow> sum_list rs \<le> hi * real (length rs)"
  by (induction rs) (auto simp: algebra_simps)

lemma all_num_fins: "list_all is_num xs \<Longrightarrow> \<exists>rs. xs = map Fin rs"
proof (induction xs)
  case Nil
  then show ?case by simp
next
  case (Cons x xs)
  then obtain rs where "xs = map Fin rs" by auto
  moreover from Cons.prems obtain r where "x = Fin r" by (cases x) auto
  ultimately have "x # xs = map Fin (r # rs)" by simp
  then show ?case by (rule exI)
qed

lemma mean_fl_Fin: "rs \<noteq> [] \<Longrightarrow> mean_fl (map Fin rs) = Fin (sum_list rs / real (length rs))"
  by (simp add: mean_fl_def fins_Some_iff[THEN iffD2])

lemma std_fl_Fin:
  "2 \<le> length rs \<Longrightarrow>
   std_fl (map Fin rs)
   = Fin (sqrt (sum_list (map (\<lambda>r. (r - sum_list rs / real (length rs))\<^sup>2) rs)
                / real (length rs - 1)))"
  by (simp add: std_fl_def fins_Some_iff[THEN iffD2] Let_def)

lemma mean_fl_is_num:
  assumes "xs \<noteq> []" and "list_all is_num xs"
  shows "is_num (mean_fl xs)"
proof -
  from assms(2) obtain rs where "xs = map Fin rs" using all_num_fins by blast
  with assms(1) show ?thesis by (simp add: mean_fl_Fin)
qed

lemma mean_fl_in_bounds:
  assumes "xs \<noteq> []" and "list_all (in_bounds b) xs"
  shows "in_bounds b (mean_fl xs)"
proof -
  from assms(2) have "list_all is_num xs"
    by (auto simp: list_all_iff in_bounds_is_num)
  then obtain rs where xs: "xs = map Fin rs" using all_num_fins by blast
  with assms(1) have n: "0 < real (length rs)" by auto
  from assms(2) have lo: "\<forall>r\<in>set rs. fst b \<le> r" and hi: "\<forall>r\<in>set rs. r \<le> snd b"
    by (auto simp: xs list_all_iff)
  have "fst b \<le> sum_list rs / real (length rs)"
    using sum_list_lower[OF lo] n by (simp add: pos_le_divide_eq)
  moreover have "sum_list rs / real (length rs) \<le> snd b"
    using sum_list_upper[OF hi] n by (simp add: pos_divide_le_eq)
  moreover have "mean_fl xs = Fin (sum_list rs / real (length rs))"
    using assms(1) by (simp add: xs mean_fl_Fin)
  ultimately show ?thesis by simp
qed

lemma sum_list_squares_nonneg: "0 \<le> sum_list (map (\<lambda>r. (r - m)\<^sup>2) (rs::real list))"
  by (induction rs) auto

lemma std_fl_ok:
  assumes "2 \<le> length xs" and "list_all is_num xs"
  shows "std_ok (std_fl xs)"
proof -
  from assms(2) obtain rs where xs: "xs = map Fin rs" using all_num_fins by blast
  with assms(1) have "2 \<le> length rs" by simp
  then show ?thesis
    by (simp add: xs std_fl_Fin sum_list_squares_nonneg)
qed

lemma std_fl_short: "length xs \<le> 1 \<Longrightarrow> std_fl xs = NaN"
  by (auto simp: std_fl_def split: option.splits dest: fins_length)

lemma std_fl_constant:
  assumes "2 \<le> length xs" and "\<forall>a\<in>set xs. a = Fin x"
  shows "std_fl xs = Fin 0"
proof -
  from assms(2) have xs: "xs = map Fin (replicate (length xs) x)"
    by (auto intro!: nth_equalityI)
  then have f: "fins xs = Some (replicate (length xs) x)"
    by (simp only: fins_Some_iff)
  have "sum_list (replicate (length xs) x) / real (length xs) = x"
    using assms(1) by (auto simp: sum_list_replicate)
  then show ?thesis
    using assms(1) by (auto simp: std_fl_def f Let_def sum_list_replicate)
qed

lemma column_all:
  assumes "\<forall>row\<in>set rows. length row = A \<and> list_all P row" and "j < A"
  shows "list_all P (column rows j)"
  using assms by (auto simp: column_def list_all_iff list_all_length)

text \<open>
  One pass from a distribution \<open>torch.normal\<close> accepts: the new mean has no NaN and,
  for bounds in order, lies within them; the new standard deviation is accepted again
  when at least two rows are kept.
\<close>

lemma cem_iteration_numeric:
  assumes ns: "numeric_state (action_size cfg) s"
    and k: "0 < cem_elite cfg" "cem_elite cfg \<le> num_cem cfg"
    and h: "length hidden = num_cem cfg"
  shows "\<exists>s'. cem_iteration cfg tie Q zt hidden s = Inr s'
           \<and> length (fst s') = action_size cfg
           \<and> list_all is_num (fst s')
           \<and> (fst (bounds cfg) \<le> snd (bounds cfg) \<longrightarrow> list_all (in_bounds (bounds cfg)) (fst s'))
           \<and> (2 \<le> cem_elite cfg \<longrightarrow> numeric_state (action_size cfg) s')"
proof -
  let ?A = "action_size cfg"
  from k have n: "0 < num_cem cfg" by simp
  from cem_sample_numeric[OF ns, of zt] obtain action where
    sample: "cem_sample cfg zt s = Inr action" and la: "length action = num_cem cfg"
    and ra: "\<forall>row\<in>set action. length row = ?A \<and> list_all is_num row
               \<and> (fst (bounds cfg) \<le> snd (bounds cfg) \<longrightarrow> list_all (in_bounds (bounds cfg)) row)"
    by blast
  from cem_select_ok[OF n k(2) h la, of tie Q] obtain elite
    where sel: "cem_select cfg tie Q hidden action = Inr elite" by auto
  have len: "length elite = cem_elite cfg" by (rule cem_select_Inr(1)[OF sel])
  have sub: "set elite \<subseteq> set action" using cem_select_Inr(2)[OF sel] h la by simp
  have rows_num: "\<forall>row\<in>set elite. length row = ?A \<and> list_all is_num row"
    using sub ra by blast
  have ne: "column elite j \<noteq> []" for j
    using len k(1) by (auto simp: column_def)
  have mean: "is_num (mean_fl (column elite j))" if "j < ?A" for j
    using ne column_all[OF rows_num that] by (rule mean_fl_is_num)
  have mean_b: "in_bounds (bounds cfg) (mean_fl (column elite j))"
    if "j < ?A" "fst (bounds cfg) \<le> snd (bounds cfg)" for j
  proof -
    have "\<forall>row\<in>set elite. length row = ?A \<and> list_all (in_bounds (bounds cfg)) row"
      using sub ra that(2) by blast
    from ne column_all[OF this that(1)] show ?thesis by (rule mean_fl_in_bounds)
  qed
  have std: "std_ok (std_fl (column elite j))" if "j < ?A" "2 \<le> cem_elite cfg" for j
  proof (rule std_fl_ok)
    show "2 \<le> length (column elite j)" using that(2) len by (simp add: column_def)
    show "list_all is_num (column elite j)" using rows_num that(1) by (rule column_all)
  qed
  have it: "cem_iteration cfg tie Q zt hidden s = Inr (mean_dim0 ?A elite, std_dim0 ?A elite)"
    by (simp add: cem_iteration_def sample sel)
  have m: "list_all is_num (mean_dim0 ?A elite)"
    using mean by (simp add: mean_dim0_def list_all_length)
  have mb: "fst (bounds cfg) \<le> snd (bounds cfg) \<Longrightarrow>
            list_all (in_bounds (bounds cfg)) (mean_dim0 ?A elite)"
    using mean_b by (simp add: mean_dim0_def list_all_length)
  have "2 \<le> cem_elite cfg \<Longrightarrow> list_all std_ok (std_dim0 ?A elite)"
    using std by (simp add: std_dim0_def list_all_length)
  with m have "2 \<le> cem_elite cfg \<longrightarrow> numeric_state ?A (mean_dim0 ?A elite, std_dim0 ?A elite)"
    by (simp add: numeric_state_def mean_dim0_def std_dim0_def)
  with it m mb show ?thesis by (simp add: mean_dim0_def)
qed

lemma cem_loop_numeric:
  assumes k: "2 \<le> cem_elite cfg" "cem_elite cfg \<le> num_cem cfg"
    and h: "length hidden = num_cem cfg"
  shows "numeric_state (action_size cfg) s \<Longrightarrow>
         \<exists>s'. cem_loop cfg tie Q z hidden t n s = Inr s'
           \<and> numeric_state (action_size cfg) s'
           \<and> (0 < n \<and> fst (bounds cfg) \<le> snd (bounds cfg) \<longrightarrow>
                list_all (in_bounds (bounds cfg)) (fst s'))"
proof (induction n arbitrary: t s)
  case 0
  then show ?case by simp
next
  case (Suc n)
  from k have k0: "0 < cem_elite cfg" by simp
  from cem_iteration_numeric[OF Suc.prems k0 k(2) h, of tie Q "z t"] k(1)
  obtain s1 where s1: "cem_iteration cfg tie Q (z t) hidden s = Inr s1"
    "fst (bounds cfg) \<le> snd (bounds cfg) \<longrightarrow> list_all (in_bounds (bounds cfg)) (fst s1)"
    "numeric_state (action_size cfg) s1"
    by auto
  from Suc.IH[OF s1(3), of "Suc t"] obtain s' where
    s': "cem_loop cfg tie Q z hidden (Suc t) n s1 = Inr s'" "numeric_state (action_size cfg) s'"
    "0 < n \<and> fst (bounds cfg) \<le> snd (bounds cfg) \<longrightarrow> list_all (in_bounds (bounds cfg)) (fst s')"
    by auto
  have "fst (bounds cfg) \<le> snd (bounds cfg) \<longrightarrow> list_all (in_bounds (bounds cfg)) (fst s')"
  proof (cases n)
    case 0
    with s'(1) s1(2) show ?thesis by simp
  next
    case (Suc m)
    with s'(3) show ?thesis by simp
  qed
  with s1(1) s' show ?case by simp
qed

lemma numeric_state_init:
  "numeric_state A (replicate A (Fin 0), replicate A (Fin 1))"
  by (simp add: numeric_state_def list_all_iff)

text \<open>
  The cross-entropy optimizer on one embedding returns a mean without NaN, within the
  bounds when these are in order and at least one pass ran.
\<close>

lemma cem_optimizer_numeric:
  assumes k: "0 < cem_elite cfg" "cem_elite cfg \<le> num_cem cfg"
    and it: "cem_elite cfg = 1 \<longrightarrow> cem_iter cfg \<le> 1"
  shows "\<exists>mu. cem_optimizer cfg tie Q z [h] = Inr [mu] \<and> length mu = action_size cfg
           \<and> (0 < cem_iter cfg \<and> fst (bounds cfg) \<le> snd (bounds cfg) \<longrightarrow>
                list_all (in_bounds (bounds cfg)) mu)"
proof -
  let ?A = "action_size cfg"
  let ?s0 = "(replicate ?A (Fin 0), replicate ?A (Fin 1::fl))"
  let ?H = "replicate (num_cem cfg) h"
  have e: "expand0 (num_cem cfg) [h] = Inr ?H" by (rule expand0_single)
  have "\<exists>s'. cem_loop cfg tie Q z ?H 0 (cem_iter cfg) ?s0 = Inr s'
          \<and> length (fst s') = ?A
          \<and> (0 < cem_iter cfg \<and> fst (bounds cfg) \<le> snd (bounds cfg) \<longrightarrow>
               list_all (in_bounds (bounds cfg)) (fst s'))"
  proof (cases "2 \<le> cem_elite cfg")
    case True
    from cem_loop_numeric[OF True k(2) _ numeric_state_init, of ?H tie Q z 0 "cem_iter cfg"]
    show ?thesis by (auto simp: numeric_state_def)
  next
    case False
    with k(1) it have "cem_iter cfg = 0 \<or> cem_iter cfg = 1" by auto
    then show ?thesis
    proof
      assume "cem_iter cfg = 0"
      then show ?thesis by simp
    next
      assume one: "cem_iter cfg = 1"
      from cem_iteration_numeric[OF numeric_state_init k _, of ?H tie Q "z 0"]
      show ?thesis by (auto simp: one)
    qed
  qed
  then show ?thesis
    by (auto simp: cem_optimizer_def cem_final_def e)
qed

text \<open>The top-k selection fails in the first pass when it is asked for too many rows.\<close>

lemma cem_iteration_topk_error:
  assumes "0 < num_cem cfg" and "num_cem cfg < cem_elite cfg"
  shows "cem_iteration cfg tie Q zt (replicate (num_cem cfg) h)
           (replicate (action_size cfg) (Fin 0), replicate (action_size cfg) (Fin 1))
         = Inl TopkError"
proof -
  from cem_sample_numeric[OF numeric_state_init, of cfg zt] obtain action where
    "cem_sample cfg zt (replicate (action_size cfg) (Fin 0), replicate (action_size cfg) (Fin 1))
     = Inr action" "length action = num_cem cfg"
    by blast
  then show ?thesis
    using assms by (simp add: cem_iteration_def cem_select_def forward_q_replicate topk_def)
qed

lemma cem_optimizer_topk_error:
  assumes "0 < num_cem cfg" and "num_cem cfg < cem_elite cfg" and "0 < cem_iter cfg"
  shows "cem_optimizer cfg tie Q z [h] = Inl TopkError"
proof -
  from assms(3) obtain n where n: "cem_iter cfg = Suc n" by (cases "cem_iter cfg") auto
  show ?thesis
    by (simp add: cem_optimizer_def cem_final_def expand0_single n
        cem_iteration_topk_error[OF assms(1,2)])
qed


lemma length_spec_candidates [simp]: "length (spec_candidates cfg zt d) = num_cem cfg"
  by (simp add: spec_candidates_def)






lemma std_dim0_short: "length rows \<le> 1 \<Longrightarrow> std_dim0 A rows = replicate A NaN"
  by (auto simp: std_dim0_def column_def std_fl_short intro!: nth_equalityI)

lemma spec_estimate_lengths [simp]:
  "length (fst (spec_estimate A rows)) = A" "length (snd (spec_estimate A rows)) = A"
  by (simp_all add: spec_estimate_def)









section \<open>The cross-entropy optimizer\<close>

text \<open>
  C6.  With \<open>cem_iter = 0\<close> and a state batch the optimizer accepts (one embedding, or
  already \<open>num_cem\<close> of them), the cross-entropy optimizer returns the mean it started
  from: one row of \<open>action_size\<close> zeros.
\<close>

theorem cem_iter_zero_returns_zero_vector:
  assumes "cem_iter cfg = 0"
    and "length hidden = 1 \<or> length hidden = num_cem cfg"
  shows "cem_optimizer cfg tie Q z hidden = Inr [replicate (action_size cfg) (Fin 0)]"
  using assms by (auto simp: cem_optimizer_def cem_final_def expand0_def)

theorem cem_iter_zero_returns_zero_vector_witness:
  "cem_iter (Agent_init 2 3 4 0 1 (- 1, 1)) = 0
   \<and> (length [7::nat] = 1 \<or> length [7::nat] = num_cem (Agent_init 2 3 4 0 1 (- 1, 1)))
   \<and> cem_optimizer (Agent_init 2 3 4 0 1 (- 1, 1)) (\<lambda>q i. 0) (\<lambda>h a. 0) (\<lambda>t r c. 0) [7::nat]
       = Inr [[Fin 0, Fin 0]]"
  using cem_iter_zero_returns_zero_vector
    [of "Agent_init 2 3 4 0 1 (- 1, 1)" "[7::nat]" "\<lambda>q i. 0" "\<lambda>h a. 0" "\<lambda>t r c. 0"]
  by (simp add: Agent_init_def eval_nat_numeral)




text \<open>
  C9.  A state batch of more than one embedding, other than \<open>num_cem\<close> of them, makes
  the first statement of the cross-entropy optimizer (the expansion of the embedding to
  \<open>num_cem\<close> copies) fail: the call raises, from \<open>_cem_optimizer\<close> and so from
  \<open>choose_action\<close> with \<open>use_cem\<close>, and returns no actions.
\<close>

theorem cem_rejects_larger_batches:
  assumes "1 < length hidden" and "length hidden \<noteq> num_cem cfg"
  shows "cem_optimizer cfg tie Q z hidden = Inl ExpandError
         \<and> (state_net img cur_time = hidden \<longrightarrow>
              choose_action cfg tie Q state_net z u img cur_time True = Inl ExpandError)"
  using assms by (simp add: cem_optimizer_def cem_final_def expand0_def choose_action_def)

theorem cem_rejects_larger_batches_witness:
  "1 < length [7::nat, 8] \<and> length [7::nat, 8] \<noteq> num_cem (Agent_init 1 1 3 1 2 (- 1, 1))
   \<and> cem_optimizer (Agent_init 1 1 3 1 2 (- 1, 1)) (\<lambda>q i. 0) (\<lambda>h a. 0) (\<lambda>t r c. 0) [7::nat, 8]
      = Inl ExpandError
   \<and> choose_action (Agent_init 1 1 3 1 2 (- 1, 1)) (\<lambda>q i. 0) (\<lambda>h a. 0) (\<lambda>img t. [7::nat, 8])
        (\<lambda>t r c. 0) (\<lambda>i j k. 0) () () True = Inl ExpandError"
  using cem_rejects_larger_batches
    [of "[7::nat, 8]" "Agent_init 1 1 3 1 2 (- 1, 1)" "\<lambda>q i. 0" "\<lambda>h a. 0" "\<lambda>t r c. 0"
        "\<lambda>img t. [7::nat, 8]" "()" "()" "\<lambda>i j k. 0"]
  by (simp add: Agent_init_def)

text \<open>
  C1, as stated: when the elite rows agree in a dimension, or only one row is kept, the
  standard deviation for the next round is clamped to a small positive floor.  It is
  not.  With bounds \<open>(-1, 1)\<close> and the two draws \<open>1.5\<close> and \<open>2.5\<close>, both
  candidates are clamped to \<open>1\<close>; keeping both leaves the standard deviation \<open>0\<close>,
  keeping one leaves it NaN.
\<close>

theorem cem_std_not_floored_counterexample:
  "cem_final (Agent_init 1 1 2 1 2 (- 1, 1)) (\<lambda>q i. 0) (\<lambda>h a. 0) (\<lambda>t r c. 3 / 2 + real r)
     [7::nat]
     = Inr ([Fin 1], [Fin 0])
   \<and> \<not> list_all positive [Fin 0]
   \<and> cem_final (Agent_init 1 1 2 1 1 (- 1, 1)) (\<lambda>q i. 0) (\<lambda>h a. 0) (\<lambda>t r c. 3 / 2 + real r)
       [7::nat]
     = Inr ([Fin 1], [NaN])
   \<and> \<not> list_all positive [NaN]"
  by (simp add: cem_final_def Agent_init_def expand0_def cem_iteration_def cem_select_def
      cem_sample_def normal_def forward_q_def topk_def mean_dim0_def std_dim0_def column_def
      mean_fl_def std_fl_def upt_conv_Cons eval_nat_numeral)

text \<open>
  C1, amended.  The standard deviation for the next round is the per-dimension sample
  standard deviation of the elite rows exactly as computed, with no floor: NaN in every
  dimension when at most one row is kept, and \<open>0\<close> in every dimension in which the
  (two or more) elite rows agree.
\<close>

theorem cem_std_is_unfloored_sample_std:
  assumes "cem_sample cfg zt s = Inr action"
    and "cem_select cfg tie Q hidden action = Inr elite"
  shows "cem_iteration cfg tie Q zt hidden s
           = Inr (mean_dim0 (action_size cfg) elite, std_dim0 (action_size cfg) elite)
         \<and> length elite = cem_elite cfg
         \<and> (cem_elite cfg \<le> 1 \<longrightarrow>
              std_dim0 (action_size cfg) elite = replicate (action_size cfg) NaN)
         \<and> (2 \<le> cem_elite cfg \<and> j < action_size cfg \<and> (\<forall>a\<in>set elite. a ! j = Fin x) \<longrightarrow>
              std_dim0 (action_size cfg) elite ! j = Fin 0)"
proof -
  have len: "length elite = cem_elite cfg" by (rule cem_select_Inr(1)[OF assms(2)])
  have "std_dim0 (action_size cfg) elite = replicate (action_size cfg) NaN"
    if "cem_elite cfg \<le> 1"
    using that len by (intro std_dim0_short) simp
  moreover have "std_dim0 (action_size cfg) elite ! j = Fin 0"
    if "2 \<le> cem_elite cfg" "j < action_size cfg" "\<forall>a\<in>set elite. a ! j = Fin x"
  proof -
    have "std_fl (column elite j) = Fin 0"
      using that(1,3) len by (intro std_fl_constant[of _ x]) (auto simp: column_def)
    with that(2) show ?thesis by (simp add: std_dim0_def)
  qed
  ultimately show ?thesis
    using len by (simp add: cem_iteration_def assms)
qed

theorem cem_std_is_unfloored_sample_std_witness:
  "cem_sample (Agent_init 1 1 2 1 2 (- 1, 1)) (\<lambda>r c. 3 / 2 + real r) ([Fin 0], [Fin 1])
     = Inr [[Fin 1], [Fin 1]]
   \<and> cem_select (Agent_init 1 1 2 1 2 (- 1, 1)) (\<lambda>q i. 0) (\<lambda>h a. 0) [7::nat, 7]
       [[Fin 1], [Fin 1]]
     = Inr [[Fin 1], [Fin 1]]
   \<and> cem_iteration (Agent_init 1 1 2 1 2 (- 1, 1)) (\<lambda>q i. 0) (\<lambda>h a. 0)
       (\<lambda>r c. 3 / 2 + real r) [7::nat, 7] ([Fin 0], [Fin 1])
     = Inr (mean_dim0 1 [[Fin 1], [Fin 1]], std_dim0 1 [[Fin 1], [Fin 1]])
   \<and> std_dim0 1 [[Fin 1], [Fin 1]] ! 0 = Fin 0"
proof -
  have sample:
    "cem_sample (Agent_init 1 1 2 1 2 (- 1, 1)) (\<lambda>r c. 3 / 2 + real r) ([Fin 0], [Fin 1])
     = Inr [[Fin 1], [Fin 1]]"
    by (simp add: Agent_init_def cem_sample_def normal_def upt_conv_Cons eval_nat_numeral)
  have sel:
    "cem_select (Agent_init 1 1 2 1 2 (- 1, 1)) (\<lambda>q i. 0) (\<lambda>h a. 0) [7::nat, 7]
       [[Fin 1], [Fin 1]]
     = Inr [[Fin 1], [Fin 1]]"
    by (simp add: Agent_init_def cem_select_def forward_q_def topk_def upt_conv_Cons)
  from cem_std_is_unfloored_sample_std[OF sample sel, of 0 1] sample sel show ?thesis
    by (simp add: Agent_init_def)
qed

section \<open>Configuration errors\<close>

text \<open>
  C2, as stated: every invalid parameter combination (\<open>cem_elite > num_cem\<close>,
  \<open>num_uniform \<le> 0\<close>, \<open>lo \<ge> hi\<close>) is reported as a configuration error at
  construction or on entry to the optimizer.  It is not: an agent with \<open>cem_elite = 5\<close>,
  \<open>num_cem = 2\<close> and \<open>cem_iter = 0\<close> is built and returns the zero vector, and one with
  bounds \<open>(1, -1)\<close> runs a round and returns a result.
\<close>

theorem configuration_error_counterexample:
  "cem_elite (Agent_init 1 1 2 0 5 (- 1, 1)) > num_cem (Agent_init 1 1 2 0 5 (- 1, 1))
   \<and> cem_optimizer (Agent_init 1 1 2 0 5 (- 1, 1)) (\<lambda>q i. 0) (\<lambda>h a. 0)
        (\<lambda>t r c. 3 / 2 + real r) [7::nat]
       = Inr [[Fin 0]]
   \<and> fst (bounds (Agent_init 1 1 2 1 1 (1, - 1))) \<ge> snd (bounds (Agent_init 1 1 2 1 1 (1, - 1)))
   \<and> cem_optimizer (Agent_init 1 1 2 1 1 (1, - 1)) (\<lambda>q i. 0) (\<lambda>h a. 0)
        (\<lambda>t r c. 3 / 2 + real r) [7::nat]
       = Inr [[Fin (- 1)]]"
  by (simp add: cem_optimizer_def cem_final_def Agent_init_def expand0_def cem_iteration_def
      cem_select_def cem_sample_def normal_def forward_q_def topk_def mean_dim0_def
      std_dim0_def column_def mean_fl_def std_fl_def upt_conv_Cons eval_nat_numeral)

text \<open>
  C2, amended.  Construction stores the parameters as they are given.  The uniform
  optimizer reports a negative \<open>num_uniform\<close> and \<open>lo > hi\<close> on entry, before the
  pass for any state and also for an empty batch, as the errors of the allocation and of
  the filling of its candidate tensor; it reports \<open>num_uniform = 0\<close> only inside the
  pass for the first state, and not at all for an empty batch; it does not report
  \<open>lo = hi\<close>.  The cross-entropy optimizer reports \<open>cem_elite > num_cem\<close> (for
  \<open>num_cem > 0\<close>) only as the failure of the top-k selection in the first pass of its
  loop, after that pass has sampled and scored its candidates, and not at all when
  \<open>cem_iter = 0\<close>, where it returns the zero vector; it does not report \<open>lo \<ge> hi\<close>:
  for \<open>1 \<le> cem_elite \<le> num_cem\<close> (and \<open>cem_iter \<le> 1\<close> when \<open>cem_elite = 1\<close>) it
  returns a result.
\<close>

theorem configuration_errors_where_they_arise:
  "cem_elite (Agent_init a nu nc ci ce b) = ce \<and> num_cem (Agent_init a nu nc ci ce b) = nc
   \<and> num_uniform (Agent_init a nu nc ci ce b) = nu \<and> bounds (Agent_init a nu nc ci ce b) = b
   \<and> (num_uniform cfg < 0 \<longrightarrow> uniform_optimizer cfg Q u hidden = Inl NegativeDimError)
   \<and> (0 \<le> num_uniform cfg \<and> snd (bounds cfg) < fst (bounds cfg) \<longrightarrow>
        uniform_optimizer cfg Q u hidden = Inl UniformError)
   \<and> (num_uniform cfg = 0 \<and> fst (bounds cfg) \<le> snd (bounds cfg) \<and> hidden \<noteq> [] \<longrightarrow>
        uniform_optimizer cfg Q u hidden = Inl ViewError
        \<and> uniform_best cfg Q hidden
             (uniform_actions u (length hidden) (nat (num_uniform cfg)) (action_size cfg)
                (fst (bounds cfg)) (snd (bounds cfg))) 0
           = Inl ViewError)
   \<and> (num_uniform cfg = 0 \<and> fst (bounds cfg) \<le> snd (bounds cfg) \<and> hidden = [] \<longrightarrow>
        uniform_optimizer cfg Q u hidden = Inr [])
   \<and> (0 < num_uniform cfg \<and> fst (bounds cfg) = snd (bounds cfg) \<longrightarrow>
        (\<exists>outs. uniform_optimizer cfg Q u hidden = Inr outs))
   \<and> (cem_iter cfg = 0 \<longrightarrow>
        cem_optimizer cfg tie Q z [h] = Inr [replicate (action_size cfg) (Fin 0)])
   \<and> (0 < cem_iter cfg \<and> 0 < num_cem cfg \<and> num_cem cfg < cem_elite cfg \<longrightarrow>
        cem_optimizer cfg tie Q z [h] = Inl TopkError
        \<and> cem_iteration cfg tie Q (z 0) (replicate (num_cem cfg) h)
             (replicate (action_size cfg) (Fin 0), replicate (action_size cfg) (Fin 1))
           = Inl TopkError)
   \<and> (snd (bounds cfg) \<le> fst (bounds cfg) \<and> 0 < cem_elite cfg \<and> cem_elite cfg \<le> num_cem cfg
        \<and> (cem_elite cfg = 1 \<longrightarrow> cem_iter cfg \<le> 1) \<longrightarrow>
        (\<exists>r. cem_optimizer cfg tie Q z [h] = Inr r))"
proof -
  have u0: "uniform_optimizer cfg Q u hidden = Inl ViewError
      \<and> uniform_best cfg Q hidden
           (uniform_actions u (length hidden) (nat (num_uniform cfg)) (action_size cfg)
              (fst (bounds cfg)) (snd (bounds cfg))) 0
         = Inl ViewError"
    if "num_uniform cfg = 0" "fst (bounds cfg) \<le> snd (bounds cfg)" "hidden \<noteq> []"
  proof -
    from that(3) have pos: "0 < length hidden" by simp
    then have "uniform_actions u (length hidden) (nat (num_uniform cfg)) (action_size cfg)
                 (fst (bounds cfg)) (snd (bounds cfg)) ! 0 = []"
      by (simp add: uniform_actions_def uniform_candidates_def that(1))
    with that(1) pos have "uniform_best cfg Q hidden
           (uniform_actions u (length hidden) (nat (num_uniform cfg)) (action_size cfg)
              (fst (bounds cfg)) (snd (bounds cfg))) 0
         = Inl ViewError"
      by (rule uniform_best_no_candidates)
    then show ?thesis
      using that by (simp add: uniform_optimizer_no_candidates)
  qed
  have u1: "uniform_optimizer cfg Q u hidden = Inr []"
    if "num_uniform cfg = 0" "fst (bounds cfg) \<le> snd (bounds cfg)" "hidden = []"
    using that by (simp add: uniform_optimizer_no_candidates)
  have u2: "\<exists>outs. uniform_optimizer cfg Q u hidden = Inr outs"
    if "0 < num_uniform cfg" "fst (bounds cfg) = snd (bounds cfg)"
    using that by (simp add: uniform_optimizer_eq)
  have c0: "cem_optimizer cfg tie Q z [h] = Inr [replicate (action_size cfg) (Fin 0)]"
    if "cem_iter cfg = 0"
    using that by (simp add: cem_optimizer_def cem_final_def expand0_single)
  have c1: "cem_optimizer cfg tie Q z [h] = Inl TopkError
      \<and> cem_iteration cfg tie Q (z 0) (replicate (num_cem cfg) h)
           (replicate (action_size cfg) (Fin 0), replicate (action_size cfg) (Fin 1))
         = Inl TopkError"
    if "0 < cem_iter cfg" "0 < num_cem cfg" "num_cem cfg < cem_elite cfg"
    using that by (simp add: cem_optimizer_topk_error cem_iteration_topk_error)
  have c2: "\<exists>r. cem_optimizer cfg tie Q z [h] = Inr r"
    if "0 < cem_elite cfg" "cem_elite cfg \<le> num_cem cfg" "cem_elite cfg = 1 \<longrightarrow> cem_iter cfg \<le> 1"
    using cem_optimizer_numeric[OF that, of tie Q z h] by blast
  have a: "cem_elite (Agent_init a nu nc ci ce b) = ce \<and> num_cem (Agent_init a nu nc ci ce b) = nc
     \<and> num_uniform (Agent_init a nu nc ci ce b) = nu \<and> bounds (Agent_init a nu nc ci ce b) = b"
    by (simp add: Agent_init_def)
  from a u0 u1 u2 c0 c1 c2
    uniform_optimizer_negative[of cfg Q u hidden]
    uniform_optimizer_reversed_bounds[of cfg Q u hidden]
  show ?thesis by blast
qed

theorem configuration_errors_where_they_arise_witness:
  "uniform_optimizer (Agent_init 1 (- 1) 2 3 1 (- 1, 1)) (\<lambda>h a. 0) (\<lambda>i j k. 0) ([]::nat list)
     = Inl NegativeDimError
   \<and> uniform_optimizer (Agent_init 1 2 2 3 1 (1, - 1)) (\<lambda>h a. 0) (\<lambda>i j k. 0) ([]::nat list)
     = Inl UniformError
   \<and> uniform_optimizer (Agent_init 1 0 2 3 1 (- 1, 1)) (\<lambda>h a. 0) (\<lambda>i j k. 0) [7::nat]
     = Inl ViewError
   \<and> uniform_optimizer (Agent_init 1 0 2 3 1 (- 1, 1)) (\<lambda>h a. 0) (\<lambda>i j k. 0) ([]::nat list)
     = Inr []
   \<and> (\<exists>outs. uniform_optimizer (Agent_init 1 2 2 3 1 (1, 1)) (\<lambda>h a. 0) (\<lambda>i j k. 0) [7::nat]
                = Inr outs)
   \<and> cem_optimizer (Agent_init 1 1 2 0 5 (- 1, 1)) (\<lambda>q i. 0) (\<lambda>h a. 0) (\<lambda>t r c. 0) [7::nat]
     = Inr [[Fin 0]]
   \<and> cem_optimizer (Agent_init 1 1 2 3 5 (- 1, 1)) (\<lambda>q i. 0) (\<lambda>h a. 0) (\<lambda>t r c. 0) [7::nat]
     = Inl TopkError
   \<and> (\<exists>r. cem_optimizer (Agent_init 1 1 2 3 2 (1, - 1)) (\<lambda>q i. 0) (\<lambda>h a. 0) (\<lambda>t r c. 0)
             [7::nat] = Inr r)"
  using
    configuration_errors_where_they_arise
      [of 1 "- 1" 2 3 1 "(- 1, 1)" "Agent_init 1 (- 1) 2 3 1 (- 1, 1)" "\<lambda>h a. 0" "\<lambda>i j k. 0"
          "[]::nat list" "\<lambda>q i. 0" "\<lambda>t r c. 0" "7::nat"]
    configuration_errors_where_they_arise
      [of 1 2 2 3 1 "(1, - 1)" "Agent_init 1 2 2 3 1 (1, - 1)" "\<lambda>h a. 0" "\<lambda>i j k. 0"
          "[]::nat list" "\<lambda>q i. 0" "\<lambda>t r c. 0" "7::nat"]
    configuration_errors_where_they_arise
      [of 1 0 2 3 1 "(- 1, 1)" "Agent_init 1 0 2 3 1 (- 1, 1)" "\<lambda>h a. 0" "\<lambda>i j k. 0"
          "[7::nat]" "\<lambda>q i. 0" "\<lambda>t r c. 0" "7::nat"]
    configuration_errors_where_they_arise
      [of 1 0 2 3 1 "(- 1, 1)" "Agent_init 1 0 2 3 1 (- 1, 1)" "\<lambda>h a. 0" "\<lambda>i j k. 0"
          "[]::nat list" "\<lambda>q i. 0" "\<lambda>t r c. 0" "7::nat"]
    configuration_errors_where_they_arise
      [of 1 2 2 3 1 "(1, 1)" "Agent_init 1 2 2 3 1 (1, 1)" "\<lambda>h a. 0" "\<lambda>i j k. 0"
          "[7::nat]" "\<lambda>q i. 0" "\<lambda>t r c. 0" "7::nat"]
    configuration_errors_where_they_arise
      [of 1 1 2 0 5 "(- 1, 1)" "Agent_init 1 1 2 0 5 (- 1, 1)" "\<lambda>h a. 0" "\<lambda>i j k. 0"
          "[7::nat]" "\<lambda>q i. 0" "\<lambda>t r c. 0" "7::nat"]
    configuration_errors_where_they_arise
      [of 1 1 2 3 5 "(- 1, 1)" "Agent_init 1 1 2 3 5 (- 1, 1)" "\<lambda>h a. 0" "\<lambda>i j k. 0"
          "[7::nat]" "\<lambda>q i. 0" "\<lambda>t r c. 0" "7::nat"]
    configuration_errors_where_they_arise
      [of 1 1 2 3 2 "(1, - 1)" "Agent_init 1 1 2 3 2 (1, - 1)" "\<lambda>h a. 0" "\<lambda>i j k. 0"
          "[7::nat]" "\<lambda>q i. 0" "\<lambda>t r c. 0" "7::nat"]
  by (simp add: Agent_init_def)

section \<open>Bounds of the results\<close>

text \<open>
  C3, as stated: for every valid configuration every component of every action returned
  by either optimizer lies within \<open>[lo, hi]\<close>.  With the valid bounds \<open>(1, 2)\<close> and
  \<open>cem_iter = 0\<close> the cross-entropy optimizer returns the zero vector, which is outside.
\<close>

theorem cem_bounds_counterexample:
  "fst (bounds (Agent_init 1 1 2 0 1 (1, 2))) < snd (bounds (Agent_init 1 1 2 0 1 (1, 2)))
   \<and> cem_optimizer (Agent_init 1 1 2 0 1 (1, 2)) (\<lambda>q i. 0) (\<lambda>h a. 0) (\<lambda>t r c. 0) [7::nat]
      = Inr [[Fin 0]]
   \<and> \<not> in_bounds (bounds (Agent_init 1 1 2 0 1 (1, 2))) (Fin 0)"
  by (simp add: cem_optimizer_def cem_final_def Agent_init_def expand0_def)

text \<open>
  C3, amended.  For bounds with \<open>lo \<le> hi\<close>: every component of every action returned
  by the uniform optimizer lies within \<open>[lo, hi]\<close> (for \<open>num_uniform > 0\<close> and uniform
  draws from the unit interval); every component of the action returned by the
  cross-entropy optimizer for one embedding lies within \<open>[lo, hi]\<close> when
  \<open>1 \<le> cem_elite \<le> num_cem\<close>, \<open>cem_iter \<ge> 1\<close> and, if only one elite row is kept,
  \<open>cem_iter = 1\<close>; with \<open>cem_iter = 0\<close> it does when \<open>lo \<le> 0 \<le> hi\<close>.
\<close>

theorem optimizer_results_within_bounds:
  assumes "fst (bounds cfg) \<le> snd (bounds cfg)"
  shows "(0 < num_uniform cfg \<and> (\<forall>i j k. 0 \<le> u i j k \<and> u i j k \<le> 1) \<longrightarrow>
            (\<exists>outs. uniform_optimizer cfg Q u hidden = Inr outs \<and> length outs = length hidden
               \<and> list_all (\<lambda>a. length a = action_size cfg
                                 \<and> list_all (in_bounds (bounds cfg)) a) outs))
         \<and> (0 < cem_elite cfg \<and> cem_elite cfg \<le> num_cem cfg \<and> 0 < cem_iter cfg
              \<and> (cem_elite cfg = 1 \<longrightarrow> cem_iter cfg = 1) \<longrightarrow>
            (\<exists>mu. cem_optimizer cfg tie Q z [h] = Inr [mu] \<and> length mu = action_size cfg
               \<and> list_all (in_bounds (bounds cfg)) mu))
         \<and> (cem_iter cfg = 0 \<and> fst (bounds cfg) \<le> 0 \<and> 0 \<le> snd (bounds cfg) \<longrightarrow>
            (\<exists>mu. cem_optimizer cfg tie Q z [h] = Inr [mu] \<and> length mu = action_size cfg
               \<and> list_all (in_bounds (bounds cfg)) mu))"
proof -
  have zero: "\<exists>mu. cem_optimizer cfg tie Q z [h] = Inr [mu] \<and> length mu = action_size cfg
          \<and> list_all (in_bounds (bounds cfg)) mu"
    if "cem_iter cfg = 0" "fst (bounds cfg) \<le> 0" "0 \<le> snd (bounds cfg)"
    using that by (simp add: cem_optimizer_def cem_final_def expand0_single list_all_iff)
  have pos: "\<exists>mu. cem_optimizer cfg tie Q z [h] = Inr [mu] \<and> length mu = action_size cfg
          \<and> list_all (in_bounds (bounds cfg)) mu"
    if "0 < cem_elite cfg" "cem_elite cfg \<le> num_cem cfg" "0 < cem_iter cfg"
      "cem_elite cfg = 1 \<longrightarrow> cem_iter cfg = 1"
  proof -
    from that(4) have "cem_elite cfg = 1 \<longrightarrow> cem_iter cfg \<le> 1" by simp
    from cem_optimizer_numeric[OF that(1,2) this, of tie Q z h] that(3) assms
    show ?thesis by blast
  qed
  from zero pos uniform_optimizer_in_bounds[OF assms, of u Q hidden] show ?thesis
    by blast
qed

theorem optimizer_results_within_bounds_witness:
  "fst (bounds (Agent_init 1 2 3 2 2 (- 1, 1))) \<le> snd (bounds (Agent_init 1 2 3 2 2 (- 1, 1)))
   \<and> (\<exists>outs. uniform_optimizer (Agent_init 1 2 3 2 2 (- 1, 1)) (\<lambda>h a. 0) (\<lambda>i j k. 1 / 2) [7::nat, 8]
                = Inr outs \<and> length outs = length [7::nat, 8]
         \<and> list_all (\<lambda>a. length a = 1 \<and> list_all (in_bounds (- 1, 1)) a) outs)
   \<and> (\<exists>mu. cem_optimizer (Agent_init 1 2 3 2 2 (- 1, 1)) (\<lambda>q i. 0) (\<lambda>h a. 0) (\<lambda>t r c. real r)
               [7::nat]
                = Inr [mu] \<and> length mu = 1 \<and> list_all (in_bounds (- 1, 1)) mu)
   \<and> (\<exists>mu. cem_optimizer (Agent_init 1 2 3 0 2 (- 1, 1)) (\<lambda>q i. 0) (\<lambda>h a. 0) (\<lambda>t r c. real r)
               [7::nat]
                = Inr [mu] \<and> length mu = 1 \<and> list_all (in_bounds (- 1, 1)) mu)"
  using
    optimizer_results_within_bounds
      [of "Agent_init 1 2 3 2 2 (- 1, 1)" "\<lambda>i j k. 1 / 2" "\<lambda>h a. 0" "[7::nat, 8]"
          "\<lambda>q i. 0" "\<lambda>t r c. real r" "7::nat"]
    optimizer_results_within_bounds
      [of "Agent_init 1 2 3 0 2 (- 1, 1)" "\<lambda>i j k. 1 / 2" "\<lambda>h a. 0" "[7::nat, 8]"
          "\<lambda>q i. 0" "\<lambda>t r c. real r" "7::nat"]
  by (simp add: Agent_init_def)

section \<open>The uniform optimizer\<close>

text \<open>
  C5.  With \<open>num_uniform > 0\<close> and bounds \<open>lo \<le> hi\<close>, the uniform optimizer returns
  one action for each of the \<open>B\<close> states of the batch, and the action at index \<open>i\<close> is
  one of the \<open>num_uniform\<close> candidates drawn for state \<open>i\<close> whose score, against the
  embedding of state \<open>i\<close>, no other candidate of that state exceeds.
\<close>

theorem uniform_optimizer_returns_best_candidates:
  assumes "0 < num_uniform cfg" and "fst (bounds cfg) \<le> snd (bounds cfg)"
  shows "\<exists>outs. uniform_optimizer cfg Q u hidden = Inr outs
           \<and> length outs = length hidden
           \<and> (\<forall>i<length hidden. \<exists>j<nat (num_uniform cfg).
                 outs ! i = uniform_candidates (u i) (nat (num_uniform cfg)) (action_size cfg)
                              (fst (bounds cfg)) (snd (bounds cfg)) ! j
                 \<and> (\<forall>k<nat (num_uniform cfg).
                       Q (hidden ! i)
                         (uniform_candidates (u i) (nat (num_uniform cfg)) (action_size cfg)
                            (fst (bounds cfg)) (snd (bounds cfg)) ! k)
                       \<le> Q (hidden ! i) (outs ! i)))"
proof -
  let ?c = "\<lambda>i. uniform_candidates (u i) (nat (num_uniform cfg)) (action_size cfg)
                   (fst (bounds cfg)) (snd (bounds cfg))"
  let ?outs = "map (\<lambda>i. best_row Q (hidden ! i) (?c i)) [0..<length hidden]"
  have r: "uniform_optimizer cfg Q u hidden = Inr ?outs"
    using assms by (rule uniform_optimizer_eq)
  have l: "length (?c i) = nat (num_uniform cfg)" for i
    by (simp add: uniform_candidates_def)
  have "\<exists>j<nat (num_uniform cfg). ?outs ! i = ?c i ! j
          \<and> (\<forall>k<nat (num_uniform cfg). Q (hidden ! i) (?c i ! k) \<le> Q (hidden ! i) (?outs ! i))"
    if i: "i < length hidden" for i
  proof -
    have "?c i \<noteq> []" using assms(1) by (auto simp: uniform_candidates_def)
    from best_row_max[OF this, of Q "hidden ! i"] i show ?thesis by (auto simp: l)
  qed
  with r show ?thesis by simp
qed

theorem uniform_optimizer_returns_best_candidates_witness:
  "0 < num_uniform (Agent_init 1 3 1 0 1 (- 1, 1))
   \<and> fst (bounds (Agent_init 1 3 1 0 1 (- 1, 1))) \<le> snd (bounds (Agent_init 1 3 1 0 1 (- 1, 1)))
   \<and> uniform_optimizer (Agent_init 1 3 1 0 1 (- 1, 1))
        (\<lambda>h a. case a of [Fin x] \<Rightarrow> - ((x - h)\<^sup>2) | _ \<Rightarrow> 0)
        (\<lambda>i j k. real j / 4) [- 1 / 2, 0]
      = Inr [[Fin (- 1 / 2)], [Fin 0]]
   \<and> (\<exists>outs. uniform_optimizer (Agent_init 1 3 1 0 1 (- 1, 1))
                (\<lambda>h a. case a of [Fin x] \<Rightarrow> - ((x - h)\<^sup>2) | _ \<Rightarrow> 0)
                (\<lambda>i j k. real j / 4) [- 1 / 2, 0] = Inr outs
         \<and> length outs = length [- 1 / 2, 0 :: real])"
proof -
  let ?C = "Agent_init 1 3 1 0 1 (- 1, 1)"
  let ?Q = "\<lambda>(h::real) a. case a of [Fin x] \<Rightarrow> - ((x - h)\<^sup>2) | _ \<Rightarrow> 0"
  let ?u = "\<lambda>(i::nat) (j::nat) (k::nat). real j / 4"
  have h: "0 < num_uniform ?C" and b: "fst (bounds ?C) \<le> snd (bounds ?C)"
    by (simp_all add: Agent_init_def)
  from uniform_optimizer_returns_best_candidates[OF h b, of ?Q ?u "[- 1 / 2, 0]"]
  have e: "\<exists>outs. uniform_optimizer ?C ?Q ?u [- 1 / 2, 0] = Inr outs
             \<and> length outs = length [- 1 / 2, 0 :: real]"
    by blast
  have v: "uniform_optimizer ?C ?Q ?u [- 1 / 2, 0] = Inr [[Fin (- 1 / 2)], [Fin 0]]"
    by (simp add: uniform_optimizer_def uniform_fill_def uniform_actions_def
        uniform_candidates_def uniform_best_def expand0_def forward_q_def max_index_def
        Agent_init_def upt_conv_Cons eval_nat_numeral)
  from h b e v show ?thesis by blast
qed

text \<open>
  C8.  With \<open>num_uniform > 0\<close> and bounds \<open>lo \<le> hi\<close>, the action returned for state
  \<open>i\<close> depends on the embedding and the candidates of state \<open>i\<close> alone: two runs that
  agree on both return the same action at \<open>i\<close>, whatever the other states, their number
  and their draws are, and in whatever order the loop visits the states.
\<close>

theorem uniform_result_depends_on_own_state_only:
  assumes "0 < num_uniform cfg" and "fst (bounds cfg) \<le> snd (bounds cfg)"
    and "i < length hidden" and "i < length hidden'"
    and "hidden ! i = hidden' ! i"
    and "uniform_candidates (u i) (nat (num_uniform cfg)) (action_size cfg)
           (fst (bounds cfg)) (snd (bounds cfg))
         = uniform_candidates (u' i) (nat (num_uniform cfg)) (action_size cfg)
             (fst (bounds cfg)) (snd (bounds cfg))"
    and "set order = {0..<length hidden}" and "set order' = {0..<length hidden'}"
  shows "\<exists>outs outs'.
           uniform_optimizer cfg Q u hidden = Inr outs
           \<and> uniform_optimizer cfg Q u' hidden' = Inr outs'
           \<and> uniform_loop cfg Q hidden
                (uniform_actions u (length hidden) (nat (num_uniform cfg)) (action_size cfg)
                   (fst (bounds cfg)) (snd (bounds cfg)))
                order (replicate (length hidden) (replicate (action_size cfg) (Fin 0))) = Inr outs
           \<and> uniform_loop cfg Q hidden'
                (uniform_actions u' (length hidden') (nat (num_uniform cfg)) (action_size cfg)
                   (fst (bounds cfg)) (snd (bounds cfg)))
                order' (replicate (length hidden') (replicate (action_size cfg) (Fin 0))) = Inr outs'
           \<and> outs ! i = outs' ! i"
  using assms
  by (simp add: uniform_optimizer_eq uniform_loop_eq)

theorem uniform_result_depends_on_own_state_only_witness:
  "0 < num_uniform (Agent_init 1 3 1 0 1 (- 1, 1))
   \<and> fst (bounds (Agent_init 1 3 1 0 1 (- 1, 1))) \<le> snd (bounds (Agent_init 1 3 1 0 1 (- 1, 1)))
   \<and> 1 < length [- 1 / 2, 0 :: real] \<and> 1 < length [1 / 2, 0, 1 :: real]
   \<and> [- 1 / 2, 0 :: real] ! 1 = [1 / 2, 0, 1 :: real] ! 1
   \<and> set [1, 0] = {0..<length [- 1 / 2, 0 :: real]}
   \<and> set [2, 0, 1] = {0..<length [1 / 2, 0, 1 :: real]}
   \<and> (\<exists>outs outs'.
         uniform_optimizer (Agent_init 1 3 1 0 1 (- 1, 1))
           (\<lambda>h a. case a of [Fin x] \<Rightarrow> - ((x - h)\<^sup>2) | _ \<Rightarrow> 0)
           (\<lambda>i j k. real j / 4) [- 1 / 2, 0] = Inr outs
         \<and> uniform_optimizer (Agent_init 1 3 1 0 1 (- 1, 1))
             (\<lambda>h a. case a of [Fin x] \<Rightarrow> - ((x - h)\<^sup>2) | _ \<Rightarrow> 0)
             (\<lambda>i j k. if i = 1 then real j / 4 else 1 / 8) [1 / 2, 0, 1] = Inr outs'
         \<and> outs ! 1 = outs' ! 1)"
proof -
  let ?C = "Agent_init 1 3 1 0 1 (- 1, 1)"
  let ?Q = "\<lambda>(h::real) a. case a of [Fin x] \<Rightarrow> - ((x - h)\<^sup>2) | _ \<Rightarrow> 0"
  let ?u = "\<lambda>(i::nat) (j::nat) (k::nat). real j / 4"
  let ?u' = "\<lambda>(i::nat) (j::nat) (k::nat). if i = 1 then real j / 4 else 1 / 8"
  have h1: "0 < num_uniform ?C" and h0: "fst (bounds ?C) \<le> snd (bounds ?C)"
    by (simp_all add: Agent_init_def)
  have h2: "1 < length [- 1 / 2, 0 :: real]" and h3: "1 < length [1 / 2, 0, 1 :: real]"
    and h4: "[- 1 / 2, 0 :: real] ! 1 = [1 / 2, 0, 1 :: real] ! 1"
    by simp_all
  have h5: "uniform_candidates (?u 1) (nat (num_uniform ?C)) (action_size ?C)
              (fst (bounds ?C)) (snd (bounds ?C))
            = uniform_candidates (?u' 1) (nat (num_uniform ?C)) (action_size ?C)
                (fst (bounds ?C)) (snd (bounds ?C))"
    by simp
  have h6: "set [1, 0] = {0..<length [- 1 / 2, 0 :: real]}"
    and h7: "set [2, 0, 1] = {0..<length [1 / 2, 0, 1 :: real]}"
    by auto
  from uniform_result_depends_on_own_state_only
         [where cfg = ?C and i = 1 and u = ?u and u' = ?u' and Q = ?Q
            and order = "[1, 0]" and order' = "[2, 0, 1]", OF h1 h0 h2 h3 h4 h5 h6 h7]
  have "\<exists>outs outs'.
         uniform_optimizer ?C ?Q ?u [- 1 / 2, 0] = Inr outs
         \<and> uniform_optimizer ?C ?Q ?u' [1 / 2, 0, 1] = Inr outs'
         \<and> outs ! 1 = outs' ! 1"
    by blast
  with h1 h0 h2 h3 h4 h6 h7 show ?thesis by blast
qed

section \<open>The training path\<close>

text \<open>
  C7.  Without an action batch, \<open>forward\<close> scores the output of the uniform optimizer
  for the same embeddings: its result is that of \<open>_forward_q\<close> on that output (and the
  error of the uniform optimizer where that fails), it does not change with the fields the
  cross-entropy optimizer reads, and for a non-empty batch, \<open>num_uniform > 0\<close> and bounds
  \<open>lo \<le> hi\<close> it is the list of the scores of the best candidates.
\<close>

theorem forward_without_action_uses_uniform_optimizer:
  "forward cfg Q state_net u img cur_time None
     = (case uniform_optimizer cfg Q u (state_net img cur_time) of
          Inl e \<Rightarrow> Inl e
        | Inr a \<Rightarrow> forward_q Q (state_net img cur_time) a)
   \<and> forward (cfg\<lparr>num_cem := nc, cem_iter := ci, cem_elite := ce\<rparr>) Q state_net u img cur_time None
     = forward cfg Q state_net u img cur_time None
   \<and> (0 < num_uniform cfg \<and> fst (bounds cfg) \<le> snd (bounds cfg)
        \<and> state_net img cur_time \<noteq> [] \<longrightarrow>
        forward cfg Q state_net u img cur_time None
        = Inr (map (\<lambda>i. Q (state_net img cur_time ! i)
                         (best_row Q (state_net img cur_time ! i)
                            (uniform_candidates (u i) (nat (num_uniform cfg)) (action_size cfg)
                               (fst (bounds cfg)) (snd (bounds cfg)))))
                 [0..<length (state_net img cur_time)]))"
proof -
  have a: "forward cfg Q state_net u img cur_time None
     = (case uniform_optimizer cfg Q u (state_net img cur_time) of
          Inl e \<Rightarrow> Inl e
        | Inr a \<Rightarrow> forward_q Q (state_net img cur_time) a)"
    by (simp add: forward_def Let_def)
  have b: "forward (cfg\<lparr>num_cem := nc, cem_iter := ci, cem_elite := ce\<rparr>) Q state_net u img cur_time None
        = forward cfg Q state_net u img cur_time None"
    by (simp add: forward_def uniform_optimizer_ignores_cem_fields)
  from a b forward_none_eq[of cfg state_net img cur_time Q u] show ?thesis
    by blast
qed

theorem forward_without_action_uses_uniform_optimizer_witness:
  "0 < num_uniform (Agent_init 1 3 1 0 1 (- 1, 1))
   \<and> fst (bounds (Agent_init 1 3 1 0 1 (- 1, 1))) \<le> snd (bounds (Agent_init 1 3 1 0 1 (- 1, 1)))
   \<and> [- 1 / 2, 0 :: real] \<noteq> []
   \<and> forward (Agent_init 1 3 1 0 1 (- 1, 1))
        (\<lambda>h a. case a of [Fin x] \<Rightarrow> - ((x - h)\<^sup>2) | _ \<Rightarrow> 0)
        (\<lambda>img t. [- 1 / 2, 0]) (\<lambda>i j k. real j / 4) () () None
      = (case uniform_optimizer (Agent_init 1 3 1 0 1 (- 1, 1))
                (\<lambda>h a. case a of [Fin x] \<Rightarrow> - ((x - h)\<^sup>2) | _ \<Rightarrow> 0)
                (\<lambda>i j k. real j / 4) [- 1 / 2, 0] of
           Inl e \<Rightarrow> Inl e
         | Inr a \<Rightarrow> forward_q (\<lambda>h a. case a of [Fin x] \<Rightarrow> - ((x - h)\<^sup>2) | _ \<Rightarrow> 0)
                      [- 1 / 2, 0] a)
   \<and> forward (Agent_init 1 3 1 0 1 (- 1, 1))
        (\<lambda>h a. case a of [Fin x] \<Rightarrow> - ((x - h)\<^sup>2) | _ \<Rightarrow> 0)
        (\<lambda>img t. [- 1 / 2, 0]) (\<lambda>i j k. real j / 4) () () None
      = Inr [0, 0]"
proof -
  let ?C = "Agent_init 1 3 1 0 1 (- 1, 1)"
  let ?Q = "\<lambda>(h::real) a. case a of [Fin x] \<Rightarrow> - ((x - h)\<^sup>2) | _ \<Rightarrow> 0"
  let ?u = "\<lambda>(i::nat) (j::nat) (k::nat). real j / 4"
  have v: "forward ?C ?Q (\<lambda>img t. [- 1 / 2, 0]) ?u () () None = Inr [0, 0]"
    by (simp add: forward_def uniform_optimizer_def uniform_fill_def uniform_actions_def
        uniform_candidates_def uniform_best_def expand0_def forward_q_def max_index_def
        Agent_init_def upt_conv_Cons eval_nat_numeral)
  from forward_without_action_uses_uniform_optimizer
         [of ?C ?Q "\<lambda>img t. [- 1 / 2, 0]" ?u "()" "()" 1 0 1] v
  show ?thesis by (simp add: Agent_init_def)
qed

text \<open>
  C10.  With an action batch, \<open>forward\<close> passes it to \<open>_forward_q\<close> as it is: the
  result does not change with the bounds, and for a batch of as many actions as states
  every action is scored as given, also outside the bounds.
\<close>

theorem forward_scores_given_actions_unchanged:
  "forward cfg Q state_net u img cur_time (Some a) = forward_q Q (state_net img cur_time) a
   \<and> forward (cfg\<lparr>bounds := b\<rparr>) Q state_net u img cur_time (Some a)
     = forward cfg Q state_net u img cur_time (Some a)
   \<and> (length a = length (state_net img cur_time) \<and> a \<noteq> [] \<longrightarrow>
        forward cfg Q state_net u img cur_time (Some a)
        = Inr (map2 Q (state_net img cur_time) a))"
  by (auto simp: forward_def forward_q_def)

theorem forward_scores_given_actions_unchanged_witness:
  "length [[Fin 5], [Fin (- 7)]] = length [- 1 / 2, 0 :: real]
   \<and> [[Fin 5], [Fin (- 7)]] \<noteq> []
   \<and> \<not> in_bounds (bounds (Agent_init 1 3 1 0 1 (- 1, 1))) (Fin 5)
   \<and> forward (Agent_init 1 3 1 0 1 (- 1, 1))
        (\<lambda>h a. case a of [Fin x] \<Rightarrow> x + h | _ \<Rightarrow> 0)
        (\<lambda>img t. [- 1 / 2, 0]) (\<lambda>i j k. 0) () () (Some [[Fin 5], [Fin (- 7)]])
      = Inr [9 / 2, - 7]"
proof -
  let ?Q = "\<lambda>(h::real) a. case a of [Fin x] \<Rightarrow> x + h | _ \<Rightarrow> 0"
  have h: "length [[Fin 5], [Fin (- 7)]] = length [- 1 / 2, 0 :: real]
           \<and> [[Fin 5], [Fin (- 7)]] \<noteq> []"
    by simp
  from forward_scores_given_actions_unchanged
         [of "Agent_init 1 3 1 0 1 (- 1, 1)" ?Q "\<lambda>img t. [- 1 / 2, 0]" "\<lambda>i j k. 0" "()" "()"
             "[[Fin 5], [Fin (- 7)]]" "(- 1, 1)"] h
  have "forward (Agent_init 1 3 1 0 1 (- 1, 1)) ?Q (\<lambda>img t. [- 1 / 2, 0]) (\<lambda>i j k. 0) () ()
          (Some [[Fin 5], [Fin (- 7)]])
        = Inr (map2 ?Q [- 1 / 2, 0] [[Fin 5], [Fin (- 7)]])"
    by blast
  then show ?thesis by (simp add: Agent_init_def)
qed

end
